theory Spec2Isabelle
  imports Main "HOL-Library.Log_Nat" "HOL-Library.AList"
begin

unbundle bit_operations_syntax

section \<open>Python values: exceptions, replies, list indexing\<close>

text \<open>
  The converter is a Python class. Its integers are unbounded (\<open>int\<close>), its lists are
  indexed with Python's rule (a negative index counts from the end, anything else out of
  range raises \<open>IndexError\<close>), and a call either raises an exception or returns a
  dictionary. An exception is the left summand of a result, a returned dictionary the
  right one; the dictionary \<open>{'error': 100, 'msg': 'Year out of range'}\<close> is the reply
  \<open>Err 100 ''Year out of range''\<close>, a data dictionary is \<open>Okay\<close>.
\<close>

datatype exn = ValueError | IndexError | OverflowError

datatype 'a reply = Err int string | Okay 'a

definition py_nth :: "'a list \<Rightarrow> int \<Rightarrow> exn + 'a" where
  "py_nth xs i =
     (if 0 \<le> i \<and> i < int (length xs) then Inr (xs ! nat i)
      else if - int (length xs) \<le> i \<and> i < 0 then Inr (xs ! nat (int (length xs) + i))
      else Inl IndexError)"

text \<open>Sequencing: the first exception raised ends the call.\<close>

definition bindE :: "exn + 'a \<Rightarrow> ('a \<Rightarrow> exn + 'b) \<Rightarrow> exn + 'b" where
  "bindE m f = (case m of Inl e \<Rightarrow> Inl e | Inr x \<Rightarrow> f x)"

lemma bindE_Inl [simp]: "bindE (Inl e) f = Inl e"
  by (simp add: bindE_def)

lemma bindE_Inr [simp]: "bindE (Inr x) f = f x"
  by (simp add: bindE_def)

text \<open>Text outside ASCII is kept as the list of its Unicode code points.\<close>

type_synonym ustr = "nat list"

section \<open>The table of lunar years\<close>

text \<open>
  A row of \<open>lunarInfo.csv\<close> is \<open>[leap month, month of new year, day of new year, month
  lengths]\<close>; the rows are read into the list \<open>__lunarInfo\<close>. The file is not part of
  the sources, so the table is a parameter \<open>tbl\<close> of every function that reads it.
\<close>

record yearData =
  leapMonth :: int
  zenMonth :: int
  zenDay :: int
  monthData :: int

definition minYear :: int where "minYear = 1890"
definition maxYear :: int where "maxYear = 2100"

definition lunarInfoAt :: "yearData list \<Rightarrow> int \<Rightarrow> exn + yearData" where
  "lunarInfoAt tbl year = py_nth tbl (year - minYear)"

definition getLunarLeapYear :: "yearData list \<Rightarrow> int \<Rightarrow> exn + int" where
  "getLunarLeapYear tbl year =
     (case lunarInfoAt tbl year of Inl e \<Rightarrow> Inl e | Inr yd \<Rightarrow> Inr (leapMonth yd))"

record lunarYearDays =
  yearDays :: int
  monthDays :: "int list"

definition monthBit :: "int \<Rightarrow> nat \<Rightarrow> int" where
  "monthBit md i = drop_bit i (md AND push_bit i 1)"

definition monthDataArr :: "int \<Rightarrow> int list" where
  "monthDataArr md = map (monthBit md) (rev [0..<16])"

fun monthLoop :: "int list \<Rightarrow> lunarYearDays \<Rightarrow> lunarYearDays" where
  "monthLoop [] acc = acc"
| "monthLoop (b # bs) acc =
     (if b = 0
      then monthLoop bs \<lparr>yearDays = yearDays acc + 29, monthDays = monthDays acc @ [29]\<rparr>
      else monthLoop bs \<lparr>yearDays = yearDays acc + 30, monthDays = monthDays acc @ [30]\<rparr>)"

definition decodeYear :: "yearData \<Rightarrow> lunarYearDays" where
  "decodeYear yd =
     (let numMonthsInYear = (if leapMonth yd \<noteq> 0 then 13 else 12 :: nat)
      in monthLoop (take numMonthsInYear (monthDataArr (monthData yd)))
           \<lparr>yearDays = 0, monthDays = []\<rparr>)"

definition getLunarYearDays :: "yearData list \<Rightarrow> int \<Rightarrow> exn + lunarYearDays" where
  "getLunarYearDays tbl year =
     (case lunarInfoAt tbl year of Inl e \<Rightarrow> Inl e | Inr yd \<Rightarrow> Inr (decodeYear yd))"

text \<open>
  A table in the format of \<open>lunarInfo.csv\<close>, one row for each year from 1890 to 2100,
  on which the functions are run at concrete inputs.
\<close>

definition row :: "int \<Rightarrow> int \<Rightarrow> int \<Rightarrow> int \<Rightarrow> yearData" where
  "row l m d b = \<lparr>leapMonth = l, zenMonth = m, zenDay = d, monthData = b\<rparr>"

definition sampleInfo :: "yearData list" where
  "sampleInfo = [
    row 2 1 21 22184, row 0 2 9 21936, row 6 1 30 9656, row 0 2 17 9584, row 0 2 6 21168,
    row 5 1 26 43344, row 0 2 13 59728, row 0 2 2 27296, row 3 1 22 44368, row 0 2 10 43856,
    row 8 1 31 19304, row 0 2 19 19168, row 0 2 8 42352, row 5 1 29 21096, row 0 2 16 53856,
    row 0 2 4 55632, row 4 1 25 27304, row 0 2 13 22176, row 0 2 2 39632, row 2 1 22 19176,
    row 0 2 10 19168, row 6 1 30 42200, row 0 2 18 42192, row 0 2 6 53840, row 5 1 26 54568,
    row 0 2 14 46400, row 0 2 3 54944, row 2 1 23 38608, row 0 2 11 38320, row 7 2 1 18872,
    row 0 2 20 18800, row 0 2 8 42160, row 5 1 28 45656, row 0 2 16 27216, row 0 2 5 27968,
    row 4 1 24 44456, row 0 2 13 11104, row 0 2 2 38256, row 2 1 23 18808, row 0 2 10 18800,
    row 6 1 30 25776, row 0 2 17 54432, row 0 2 6 59984, row 5 1 26 27976, row 0 2 14 23248,
    row 0 2 4 11104, row 3 1 24 37744, row 0 2 11 37600, row 7 1 31 51560, row 0 2 19 51536,
    row 0 2 8 54432, row 6 1 27 55888, row 0 2 15 46416, row 0 2 5 22176, row 4 1 25 43736,
    row 0 2 13 9680, row 0 2 2 37584, row 2 1 22 51544, row 0 2 10 43344, row 7 1 29 46248,
    row 0 2 17 27808, row 0 2 6 46416, row 5 1 27 21928, row 0 2 14 19872, row 0 2 3 42416,
    row 3 1 24 21176, row 0 2 12 21168, row 8 1 31 43344, row 0 2 18 59728, row 0 2 8 27296,
    row 6 1 28 44368, row 0 2 15 43856, row 0 2 5 19296, row 4 1 25 42352, row 0 2 13 42352,
    row 0 2 2 21088, row 3 1 21 59696, row 0 2 9 55632, row 7 1 30 23208, row 0 2 17 22176,
    row 0 2 6 38608, row 5 1 27 19176, row 0 2 15 19152, row 0 2 3 42192, row 4 1 23 53864,
    row 0 2 11 53840, row 8 1 31 54568, row 0 2 18 46400, row 0 2 7 46752, row 6 1 28 38608,
    row 0 2 16 38320, row 0 2 5 18864, row 4 1 25 42168, row 0 2 13 42160, row 10 2 2 45656,
    row 0 2 20 27216, row 0 2 9 27968, row 6 1 29 44448, row 0 2 17 43872, row 0 2 6 38256,
    row 5 1 27 18808, row 0 2 15 18800, row 0 2 4 25776, row 3 1 23 27216, row 0 2 10 59984,
    row 8 1 31 27432, row 0 2 19 23232, row 0 2 7 43872, row 5 1 28 37736, row 0 2 16 37600,
    row 0 2 5 51552, row 4 1 24 54440, row 0 2 12 54432, row 0 2 1 55888, row 2 1 22 23208,
    row 0 2 9 22176, row 7 1 29 43736, row 0 2 18 9680, row 0 2 7 37584, row 5 1 26 51544,
    row 0 2 14 43344, row 0 2 3 46240, row 4 1 23 46416, row 0 2 10 44368, row 9 1 31 21928,
    row 0 2 19 19360, row 0 2 8 42416, row 6 1 28 21176, row 0 2 16 21168, row 0 2 5 43312,
    row 4 1 25 29864, row 0 2 12 27296, row 0 2 1 44368, row 2 1 22 19880, row 0 2 10 19296,
    row 6 1 29 42352, row 0 2 17 42208, row 0 2 6 53856, row 5 1 26 59696, row 0 2 13 54576,
    row 0 2 3 23200, row 3 1 23 27472, row 0 2 11 38608, row 11 1 31 19176, row 0 2 19 19152,
    row 0 2 8 42192, row 6 1 28 53848, row 0 2 15 53840, row 0 2 4 54560, row 5 1 24 55968,
    row 0 2 12 46496, row 0 2 1 22224, row 2 1 22 19160, row 0 2 10 18864, row 7 1 30 42168,
    row 0 2 17 42160, row 0 2 6 43600, row 5 1 26 46376, row 0 2 14 27936, row 0 2 2 44448,
    row 3 1 23 21936, row 0 2 11 37744, row 8 2 1 18808, row 0 2 19 18800, row 0 2 8 25776,
    row 6 1 28 27216, row 0 2 15 59984, row 0 2 4 27424, row 4 1 24 43872, row 0 2 12 43744,
    row 0 2 2 37600, row 3 1 21 51568, row 0 2 9 51552, row 7 1 29 54440, row 0 2 17 54432,
    row 0 2 5 55888, row 5 1 26 23208, row 0 2 14 22176, row 0 2 3 42704, row 4 1 23 21224,
    row 0 2 11 21200, row 8 1 31 43352, row 0 2 19 43344, row 0 2 7 46240, row 6 1 27 46416,
    row 0 2 15 44368, row 0 2 5 21920, row 4 1 24 42448, row 0 2 12 42416, row 0 2 2 21168,
    row 3 1 22 43320, row 0 2 9 26928, row 7 1 29 29336, row 0 2 17 27296, row 0 2 6 44368,
    row 5 1 26 19880, row 0 2 14 19296, row 0 2 3 42352, row 4 1 24 21104, row 0 2 10 53856,
    row 8 1 30 59696, row 0 2 18 54560, row 0 2 7 55968, row 6 1 27 27472, row 0 2 15 22224,
    row 0 2 5 19168, row 4 1 25 42216, row 0 2 12 42192, row 0 2 1 53584, row 2 1 21 55592,
    row 0 2 9 54560]"

section \<open>Gregorian dates\<close>

text \<open>
  The converter counts days with Python's \<open>datetime.date\<close>: the proleptic Gregorian
  calendar, years 1 to 9999, where 1 January of year 1 is day number 1. \<open>mk_date\<close> is
  the constructor \<open>datetime.date(y, m, d)\<close>: it first converts its three arguments to
  C integers of 32 bits, raising \<open>OverflowError\<close> for one that does not fit, and then
  raises \<open>ValueError\<close> for a day that does not exist; \<open>date_diff_days\<close> is \<open>(d1 - d0).days\<close>; \<open>date_add_days\<close> is
  \<open>d + datetime.timedelta(days=n)\<close>, which raises \<open>OverflowError\<close> when the result leaves
  the years 1 to 9999.
\<close>

definition isLeapYear :: "int \<Rightarrow> bool" where
  "isLeapYear year \<longleftrightarrow> (year mod 4 = 0 \<and> year mod 100 \<noteq> 0) \<or> year mod 400 = 0"

definition days_in_month :: "int \<Rightarrow> int \<Rightarrow> int" where
  "days_in_month y m =
     (if m = 2 then (if isLeapYear y then 29 else 28)
      else if m = 4 \<or> m = 6 \<or> m = 9 \<or> m = 11 then 30 else 31)"

definition days_before_year :: "int \<Rightarrow> int" where
  "days_before_year y = (let p = y - 1 in p * 365 + p div 4 - p div 100 + p div 400)"

definition days_before_month :: "int \<Rightarrow> int \<Rightarrow> int" where
  "days_before_month y m = sum_list (map (days_in_month y) [1..m - 1])"

record date =
  dyear :: int
  dmonth :: int
  dday :: int

definition valid_date :: "int \<Rightarrow> int \<Rightarrow> int \<Rightarrow> bool" where
  "valid_date y m d \<longleftrightarrow>
     1 \<le> y \<and> y \<le> 9999 \<and> 1 \<le> m \<and> m \<le> 12 \<and> 1 \<le> d \<and> d \<le> days_in_month y m"

definition c_int :: "int \<Rightarrow> bool" where
  "c_int v \<longleftrightarrow> - 2147483648 \<le> v \<and> v \<le> 2147483647"

definition mk_date :: "int \<Rightarrow> int \<Rightarrow> int \<Rightarrow> exn + date" where
  "mk_date y m d =
     (if \<not> (c_int y \<and> c_int m \<and> c_int d) then Inl OverflowError
      else if valid_date y m d then Inr \<lparr>dyear = y, dmonth = m, dday = d\<rparr>
      else Inl ValueError)"

definition toordinal :: "date \<Rightarrow> int" where
  "toordinal dt = days_before_year (dyear dt) + days_before_month (dyear dt) (dmonth dt) + dday dt"

lemma div_next:
  assumes "0 < (k::int)"
  shows "(p + 1) div k = p div k + (if (p + 1) mod k = 0 then 1 else 0)"
proof -
  define q r where "q = p div k" and "r = p mod k"
  have p: "p = k * q + r" and r: "0 \<le> r" "r < k"
    using assms by (simp_all add: q_def r_def)
  show ?thesis
  proof (cases "r = k - 1")
    case True
    then have e: "p + 1 = k * (q + 1) + 0" using p by (simp add: algebra_simps)
    have "(p + 1) div k = q + 1" using assms by (intro int_div_pos_eq[OF e]) auto
    moreover have "(p + 1) mod k = 0" using assms by (intro int_mod_pos_eq[OF e]) auto
    ultimately show ?thesis by (simp add: q_def)
  next
    case False
    then have e: "p + 1 = k * q + (r + 1)" and b: "0 \<le> r + 1" "r + 1 < k" using p r by auto
    have "(p + 1) div k = q" by (rule int_div_pos_eq[OF e b])
    moreover have "(p + 1) mod k = r + 1" by (rule int_mod_pos_eq[OF e b])
    ultimately show ?thesis using r by (simp add: q_def)
  qed
qed

lemma mod_100_4: "(y::int) mod 100 = 0 \<Longrightarrow> y mod 4 = 0"
  using mod_mod_cancel[of 4 100 y] by simp

lemma mod_400_100: "(y::int) mod 400 = 0 \<Longrightarrow> y mod 100 = 0"
  using mod_mod_cancel[of 100 400 y] by simp

lemma days_before_year_next:
  "days_before_year (y + 1) = days_before_year y + (if isLeapYear y then 366 else 365)"
proof -
  have a: "y div 4 = (y - 1) div 4 + (if y mod 4 = 0 then 1 else 0)"
    using div_next[of 4 "y - 1"] by simp
  have b: "y div 100 = (y - 1) div 100 + (if y mod 100 = 0 then 1 else 0)"
    using div_next[of 100 "y - 1"] by simp
  have c: "y div 400 = (y - 1) div 400 + (if y mod 400 = 0 then 1 else 0)"
    using div_next[of 400 "y - 1"] by simp
  have "days_before_year (y + 1) = y * 365 + y div 4 - y div 100 + y div 400"
    by (simp add: days_before_year_def)
  also have "\<dots> = days_before_year y + 365 + (if y mod 4 = 0 then 1 else 0)
       - (if y mod 100 = 0 then 1 else 0) + (if y mod 400 = 0 then 1 else 0)"
    unfolding days_before_year_def Let_def by (subst a, subst b, subst c) (simp add: algebra_simps)
  also have "\<dots> = days_before_year y + (if isLeapYear y then 366 else 365)"
    using mod_100_4[of y] mod_400_100[of y] by (simp add: isLeapYear_def)
  finally show ?thesis .
qed

lemma days_before_year_less: "days_before_year y < days_before_year (y + 1)"
  using days_before_year_next [of y] by (simp split: if_splits)

text \<open>
  The date of a day number: the year is searched upwards from an underestimate, then
  the month upwards from January.
\<close>

function find_year :: "int \<Rightarrow> int \<Rightarrow> int" where
  "find_year n y = (if days_before_year (y + 1) < n then find_year n (y + 1) else y)"
  by pat_completeness auto
termination
proof (relation "measure (\<lambda>(n, y). nat (n - days_before_year (y + 1)))")
  show "wf (measure (\<lambda>(n, y). nat (n - days_before_year (y + 1))))"
    by simp
next
  fix n y :: int
  assume "days_before_year (y + 1) < n"
  moreover have "days_before_year (y + 1) < days_before_year (y + 1 + 1)"
    by (rule days_before_year_less)
  ultimately show "((n, y + 1), (n, y)) \<in> measure (\<lambda>(n, y). nat (n - days_before_year (y + 1)))"
    by simp
qed

function find_month :: "int \<Rightarrow> int \<Rightarrow> int \<Rightarrow> int \<times> int" where
  "find_month y m r =
     (if m < 12 \<and> days_in_month y m < r then find_month y (m + 1) (r - days_in_month y m)
      else (m, r))"
  by pat_completeness auto
termination
  by (relation "measure (\<lambda>(y, m, r). nat (12 - m))") auto

declare find_year.simps [simp del] find_month.simps [simp del]

definition fromordinal :: "int \<Rightarrow> date" where
  "fromordinal n =
     (let y = find_year n ((n - 1) div 366 + 1);
          (m, d) = find_month y 1 (n - days_before_year y)
      in \<lparr>dyear = y, dmonth = m, dday = d\<rparr>)"

definition maxordinal :: int where "maxordinal = 3652059"

definition date_add_days :: "date \<Rightarrow> int \<Rightarrow> exn + date" where
  "date_add_days dt n =
     (let k = toordinal dt + n
      in if 1 \<le> k \<and> k \<le> maxordinal then Inr (fromordinal k) else Inl OverflowError)"

definition date_diff_days :: "date \<Rightarrow> date \<Rightarrow> int" where
  "date_diff_days d1 d0 = toordinal d1 - toordinal d0"

section \<open>Day counting between the calendars\<close>

record lunarDate =
  lyear :: int
  lmonth :: int
  lday :: int

text \<open>
  The loop of \<open>__getLunarDateByBetween\<close> over the months still to visit, with the index
  \<open>i\<close> of the first of them and the running total \<open>tempDays\<close>; it returns the pair
  \<open>(month, tempDays)\<close> the loop leaves behind. When no month is found, \<open>month\<close> keeps
  its initial value 0 and \<open>tempDays\<close> is the whole year.
\<close>

fun betweenLoop :: "int list \<Rightarrow> int \<Rightarrow> int \<Rightarrow> int \<Rightarrow> int \<times> int" where
  "betweenLoop [] i tempDays en = (0, tempDays)"
| "betweenLoop (md # mds) i tempDays en =
     (if tempDays + md > en then (i, tempDays + md - md)
      else betweenLoop mds (i + 1) (tempDays + md) en)"

definition lunarDateIn :: "lunarYearDays \<Rightarrow> int \<Rightarrow> int \<Rightarrow> lunarDate" where
  "lunarDateIn lyd year between =
     (let en = (if between > 0 then between else yearDays lyd + between);
          (month, tempDays) = betweenLoop (monthDays lyd) 0 0 en
      in \<lparr>lyear = year, lmonth = month, lday = en - tempDays + 1\<rparr>)"

definition getLunarDateByBetween :: "yearData list \<Rightarrow> int \<Rightarrow> int \<Rightarrow> exn + lunarDate" where
  "getLunarDateByBetween tbl year between =
     bindE (getLunarYearDays tbl year) (\<lambda>lyd. Inr (lunarDateIn lyd year between))"

definition getDaysBetweenSolar ::
  "int \<Rightarrow> int \<Rightarrow> int \<Rightarrow> int \<Rightarrow> int \<Rightarrow> int \<Rightarrow> exn + int" where
  "getDaysBetweenSolar year month day year1 month1 day1 =
     bindE (mk_date year (month + 1) day) (\<lambda>d0.
     bindE (mk_date year1 (month1 + 1) day1) (\<lambda>d1.
     Inr (date_diff_days d1 d0)))"

definition getLunarByBetween :: "yearData list \<Rightarrow> int \<Rightarrow> int \<Rightarrow> int \<Rightarrow> exn + lunarDate" where
  "getLunarByBetween tbl year month day =
     bindE (lunarInfoAt tbl year) (\<lambda>yd.
     bindE (getDaysBetweenSolar year (zenMonth yd - 1) (zenDay yd) year month day) (\<lambda>between.
     if between = 0 then Inr \<lparr>lyear = year, lmonth = 0, lday = 1\<rparr>
     else getLunarDateByBetween tbl (if between > 0 then year else year - 1) between))"

fun zhengLoop :: "int list \<Rightarrow> int \<Rightarrow> int \<Rightarrow> int \<Rightarrow> int" where
  "zhengLoop [] i month days = days"
| "zhengLoop (md # mds) i month days =
     (if i < month then zhengLoop mds (i + 1) month (days + md) else days)"

definition getDaysBetweenZheng :: "yearData list \<Rightarrow> int \<Rightarrow> int \<Rightarrow> int \<Rightarrow> exn + int" where
  "getDaysBetweenZheng tbl year month day =
     bindE (getLunarYearDays tbl year) (\<lambda>lyd.
     Inr (zhengLoop (monthDays lyd) 0 month 0 + day - 1))"

section \<open>Validation and the lunar to solar conversion\<close>

text \<open>
  \<open>__formatDate\<close> with explicit integer arguments (the defaults taken from the clock
  belong to the caller). The last argument is the optional \<open>_minYear\<close>.
\<close>

record ymd =
  year_of :: int
  month_of :: int
  day_of :: int

definition formatDate :: "int \<Rightarrow> int \<Rightarrow> int \<Rightarrow> int option \<Rightarrow> ymd reply" where
  "formatDate year month day mn =
     (if year < (case mn of Some v \<Rightarrow> v | None \<Rightarrow> minYear + 1) \<or> year > maxYear
      then Err 100 ''Year out of range''
      else Okay \<lparr>year_of = year, month_of = month - 1, day_of = day\<rparr>)"

definition timedelta_days :: "int \<Rightarrow> exn + int" where
  "timedelta_days n = (if \<bar>n\<bar> \<le> 999999999 then Inr n else Inl OverflowError)"

definition lunarToSolar :: "yearData list \<Rightarrow> int \<Rightarrow> int \<Rightarrow> int \<Rightarrow> exn + ymd reply" where
  "lunarToSolar tbl y m d =
     (case formatDate y m d None of
        Err c msg \<Rightarrow> Inr (Err c msg)
      | Okay inp \<Rightarrow>
          bindE (getDaysBetweenZheng tbl (year_of inp) (month_of inp) (day_of inp)) (\<lambda>between.
          bindE (lunarInfoAt tbl (year_of inp)) (\<lambda>yd.
          bindE (mk_date (year_of inp) (zenMonth yd) (zenDay yd)) (\<lambda>d0.
          bindE (timedelta_days between) (\<lambda>n.
          bindE (date_add_days d0 n) (\<lambda>offDate.
          Inr (Okay \<lparr>year_of = dyear offDate, month_of = dmonth offDate,
                     day_of = dday offDate\<rparr>)))))))"

section \<open>Names: stems, branches, animals, terms\<close>

definition heavenlyStems :: "ustr list" where
  "heavenlyStems = [[30002], [20057], [19993], [19969], [25098],
                    [24049], [24218], [36763], [22764], [30328]]"

definition earthlyBranches :: "ustr list" where
  "earthlyBranches = [[23376], [19985], [23493], [21359], [36784], [24051],
                      [21320], [26410], [30003], [37193], [25100], [20133]]"

definition zodiacNames :: "ustr list" where
  "zodiacNames = [[40736], [29275], [34382], [20820], [40845], [34503],
                  [39340], [32650], [29492], [38622], [29399], [35948]]"

definition solarTerm :: "ustr list" where
  "solarTerm = [[23567, 23506], [22823, 23506], [31435, 26149], [38632, 27700],
                [39514, 34756], [26149, 20998], [28165, 26126], [31296, 38632],
                [31435, 22799], [23567, 28415], [33426, 31278], [22799, 33267],
                [23567, 26257], [22823, 26257], [31435, 31179], [34389, 26257],
                [30333, 38706], [31179, 20998], [23506, 38706], [38684, 38477],
                [31435, 20908], [23567, 38634], [22823, 38634], [20908, 33267]]"

definition monthCn :: "ustr list" where
  "monthCn = [[27491], [20108], [19977], [22235], [20116], [20845],
              [19971], [20843], [20061], [21313], [21313, 19968], [21313, 20108]]"

definition dateCn :: "ustr list" where
  "dateCn = [[21021, 19968], [21021, 20108], [21021, 19977], [21021, 22235],
             [21021, 20116], [21021, 20845], [21021, 19971], [21021, 20843],
             [21021, 20061], [21021, 21313], [21313, 19968], [21313, 20108],
             [21313, 19977], [21313, 22235], [21313, 20116], [21313, 20845],
             [21313, 19971], [21313, 20843], [21313, 20061], [20108, 21313],
             [24319, 19968], [24319, 20108], [24319, 19977], [24319, 22235],
             [24319, 20116], [24319, 20845], [24319, 19971], [24319, 20843],
             [24319, 20061], [19977, 21313], [21317, 19968]]"

text \<open>The start of spring, the leap mark and the word for month, as code points.\<close>

definition liChun :: ustr where "liChun = [31435, 26149]"
definition runMark :: ustr where "runMark = [38287]"
definition yueMark :: ustr where "yueMark = [26376]"

text \<open>Python's \<open>str\<close> of an integer, and \<open>int\<close> of a one-character string.\<close>

definition digit_char :: "nat \<Rightarrow> char" where
  "digit_char n = ''0123456789'' ! n"

fun digits :: "nat \<Rightarrow> string" where
  "digits n = (if n < 10 then [digit_char n] else digits (n div 10) @ [digit_char (n mod 10)])"

declare digits.simps [simp del]

definition str_int :: "int \<Rightarrow> string" where
  "str_int i = (if i < 0 then CHR ''-'' # digits (nat (- i)) else digits (nat i))"

definition int_of_char :: "char \<Rightarrow> exn + int" where
  "int_of_char c =
     (if c = CHR ''0'' then Inr 0 else if c = CHR ''1'' then Inr 1
      else if c = CHR ''2'' then Inr 2 else if c = CHR ''3'' then Inr 3
      else if c = CHR ''4'' then Inr 4 else if c = CHR ''5'' then Inr 5
      else if c = CHR ''6'' then Inr 6 else if c = CHR ''7'' then Inr 7
      else if c = CHR ''8'' then Inr 8 else if c = CHR ''9'' then Inr 9
      else Inl ValueError)"

definition formatDayD4 :: "int \<Rightarrow> int \<Rightarrow> string" where
  "formatDayD4 month day =
     (let month1 = month + 1;
          ms = (if month1 < 10 then ''0'' @ str_int month1 else str_int month1);
          ds = (if day < 10 then ''0'' @ str_int day else str_int day)
      in ''d'' @ ms @ ds)"

definition cyclical :: "int \<Rightarrow> exn + ustr" where
  "cyclical num =
     bindE (py_nth heavenlyStems (num mod 10)) (\<lambda>stem.
     bindE (py_nth earthlyBranches (num mod 12)) (\<lambda>branch.
     Inr (stem @ branch)))"

definition getYearZodiac :: "int \<Rightarrow> exn + ustr" where
  "getYearZodiac year = (let num = year - 1890 + 25 in py_nth zodiacNames (num mod 12))"

definition getLunarYearName :: "int \<Rightarrow> int \<Rightarrow> exn + ustr" where
  "getLunarYearName year offset = cyclical (year - 1890 + 25 + offset)"

definition getLunarMonthName :: "int \<Rightarrow> int \<Rightarrow> int \<Rightarrow> exn + ustr" where
  "getLunarMonthName year month offset = cyclical ((year - 1890) * 12 + month + 12 + offset)"

definition getLunarDayName :: "int \<Rightarrow> int \<Rightarrow> int \<Rightarrow> exn + ustr" where
  "getLunarDayName year month day =
     bindE (mk_date year (month + 1) day) (\<lambda>d.
     bindE (timedelta_days (29219 + 18)) (\<lambda>n.
     bindE (date_add_days d n) (\<lambda>d1.
     bindE (mk_date 1970 1 1) (\<lambda>d0.
     cyclical (date_diff_days d1 d0)))))"

section \<open>Solar terms\<close>

text \<open>
  \<open>__getTerm\<close> computes in binary floating point. A double is kept as the rational
  it denotes; \<open>fl\<close> rounds a rational to the nearest double, ties to even, for a
  magnitude in the normal range (53 significant bits), which is all the conversion
  reaches. The literal \<open>31556925974.7\<close>, the product with the year count and the sum
  with the term's offset are each rounded once. \<open>float_of_int\<close> is the conversion of
  the year count that the product starts with: it raises \<open>OverflowError\<close> when the
  rounded value is beyond the largest double, and it comes before the term's offset is
  looked up. A product beyond the largest double is an infinity in the code and a large
  rational here; both are refused by \<open>timedelta\<close> with \<open>OverflowError\<close>. \<open>timedelta_ms\<close> is
  \<open>datetime.timedelta(milliseconds=x)\<close> for a float \<open>x\<close>: a whole number of microseconds,
  rounded to nearest, ties to even, at most 999999999 days. \<open>datetime_add_day\<close> is the
  field \<open>day\<close> of \<open>datetime(1890, 1, 5, 16, 2, 31, tzinfo=utc) + delta\<close>.
\<close>

definition pow2 :: "int \<Rightarrow> rat" where
  "pow2 e = (if 0 \<le> e then 2 ^ nat e else 1 / 2 ^ nat (- e))"

definition ilog2 :: "rat \<Rightarrow> int" where
  "ilog2 x = (if 1 \<le> x then bitlen \<lfloor>x\<rfloor> - 1 else - bitlen (\<lceil>1 / x\<rceil> - 1))"

definition round_half_even :: "rat \<Rightarrow> int" where
  "round_half_even x =
     (let f = \<lfloor>x\<rfloor>; r = x - of_int f
      in if r < 1 / 2 then f else if 1 / 2 < r then f + 1 else if even f then f else f + 1)"

definition fl :: "rat \<Rightarrow> rat" where
  "fl x =
     (if x = 0 then 0
      else let e = ilog2 \<bar>x\<bar> - 52
           in sgn x * of_int (round_half_even (\<bar>x\<bar> / pow2 e)) * pow2 e)"

definition termInfo :: "int list" where
  "termInfo = [0, 21208, 42467, 63836, 85337, 107014, 128867, 150921,
               173149, 195551, 218072, 240693, 263343, 285989, 308563,
               331033, 353350, 375494, 397447, 419210, 440795, 462224,
               483532, 504758]"

definition float_of_int :: "int \<Rightarrow> exn + rat" where
  "float_of_int k =
     (let x = fl (of_int k) in if \<bar>x\<bar> < 2 ^ 1024 then Inr x else Inl OverflowError)"

definition offsetms :: "rat \<Rightarrow> int \<Rightarrow> rat" where
  "offsetms years t = fl (fl (fl (315569259747 / 10) * years) + fl (of_int (t * 60000)))"

definition timedelta_ms :: "rat \<Rightarrow> exn + int" where
  "timedelta_ms x =
     (let us = round_half_even (x * 1000)
      in if \<bar>us div 86400000000\<bar> \<le> 999999999 then Inr us else Inl OverflowError)"

definition epoch_us :: int where
  "epoch_us =
     (toordinal \<lparr>dyear = 1890, dmonth = 1, dday = 5\<rparr> * 86400 + (16 * 3600 + 2 * 60 + 31))
       * 1000000"

definition datetime_add_day :: "int \<Rightarrow> exn + int" where
  "datetime_add_day us =
     (let k = (epoch_us + us) div 86400000000
      in if 1 \<le> k \<and> k \<le> maxordinal then Inr (dday (fromordinal k)) else Inl OverflowError)"

definition getTerm :: "int \<Rightarrow> int \<Rightarrow> exn + int" where
  "getTerm y n =
     bindE (float_of_int (y - 1890)) (\<lambda>years.
     bindE (py_nth termInfo n) (\<lambda>t.
     bindE (timedelta_ms (offsetms years t)) (\<lambda>us.
     datetime_add_day us)))"

text \<open>
  The dictionary of \<open>__getYearTerm\<close> keeps its keys in insertion order: an association
  list, updated in place or extended at the end. The loop visits the indices still to
  come with the month counter and the dictionary so far.
\<close>

type_synonym termList = "(string \<times> ustr) list"

fun yearTermLoop :: "int \<Rightarrow> nat list \<Rightarrow> int \<Rightarrow> termList \<Rightarrow> exn + termList" where
  "yearTermLoop year [] month res = Inr res"
| "yearTermLoop year (i # rest) month res =
     bindE (getTerm year (int i)) (\<lambda>day.
     if i mod 2 = 0
     then bindE (py_nth solarTerm (int i)) (\<lambda>name.
          yearTermLoop year rest (month + 1)
            (AList.update (formatDayD4 (month + 1 - 1) day) name res))
     else yearTermLoop year rest month res)"

definition getYearTerm :: "int \<Rightarrow> exn + termList" where
  "getYearTerm year = yearTermLoop year [0..<24] 0 []"

section \<open>The solar to lunar conversion\<close>

record lunarResult =
  r_zodiac :: ustr
  r_GanZhiYear :: ustr
  r_GanZhiMonth :: ustr
  r_GanZhiDay :: ustr
  r_term :: "ustr option"
  r_lunarYear :: int
  r_lunarMonth :: int
  r_lunarDay :: int
  r_lunarMonthName :: ustr
  r_lunarDayName :: ustr
  r_lunarLeapMonth :: int

definition term2_of :: "termList \<Rightarrow> exn + int" where
  "term2_of termList =
     bindE (py_nth (map fst (filter (\<lambda>kv. snd kv = liChun) termList)) 0) (\<lambda>key.
     bindE (py_nth key (- 1)) int_of_char)"

definition cutoverYear :: "int \<Rightarrow> int \<Rightarrow> int \<Rightarrow> int \<Rightarrow> int" where
  "cutoverYear year month day term2 =
     (if month > 1 \<or> (month = 1 \<and> day \<ge> term2) then year + 1 else year)"

definition lunarMonthNameOf :: "int \<Rightarrow> int \<Rightarrow> exn + ustr" where
  "lunarMonthNameOf leap m =
     (if leap > 0 \<and> leap = m
      then bindE (py_nth monthCn (m - 1)) (\<lambda>nm. Inr (runMark @ nm @ yueMark))
      else if leap > 0 \<and> m > leap
      then bindE (py_nth monthCn (m - 1)) (\<lambda>nm. Inr (nm @ yueMark))
      else bindE (py_nth monthCn m) (\<lambda>nm. Inr (nm @ yueMark)))"

definition solarToLunarBody :: "yearData list \<Rightarrow> termList \<Rightarrow> ymd \<Rightarrow> exn + lunarResult" where
  "solarToLunarBody tbl termList inp =
     (let year = year_of inp; month = month_of inp; day = day_of inp in
      bindE (term2_of termList) (\<lambda>term2.
      bindE (getTerm year (month * 2)) (\<lambda>firstTerm.
      let GanZhiYear = cutoverYear year month day term2;
          GanZhiMonth = (if day \<ge> firstTerm then month + 1 else month) in
      bindE (getLunarByBetween tbl year month day) (\<lambda>lunarDate.
      bindE (getLunarLeapYear tbl (lyear lunarDate)) (\<lambda>lunarLeapMonth.
      bindE (lunarMonthNameOf lunarLeapMonth (lmonth lunarDate)) (\<lambda>lunarMonthName.
      let term = map_of termList (formatDayD4 month day) in
      bindE (getYearZodiac GanZhiYear) (\<lambda>zodiac.
      bindE (getLunarYearName GanZhiYear 0) (\<lambda>gzYear.
      bindE (getLunarMonthName year GanZhiMonth 0) (\<lambda>gzMonth.
      bindE (getLunarDayName year month day) (\<lambda>gzDay.
      bindE (py_nth dateCn (lday lunarDate - 1)) (\<lambda>lunarDayName.
      Inr \<lparr>r_zodiac = zodiac, r_GanZhiYear = gzYear, r_GanZhiMonth = gzMonth,
           r_GanZhiDay = gzDay, r_term = term, r_lunarYear = lyear lunarDate,
           r_lunarMonth = lmonth lunarDate + 1, r_lunarDay = lday lunarDate,
           r_lunarMonthName = lunarMonthName, r_lunarDayName = lunarDayName,
           r_lunarLeapMonth = lunarLeapMonth\<rparr>)))))))))))"

text \<open>
  The instance keeps the term dictionaries it has built in \<open>self.__cache\<close>; the cache is
  passed in and returned. An exception raised while a dictionary is built leaves the
  cache as it was.
\<close>

type_synonym cache = "int \<rightharpoonup> termList"

definition solarToLunar ::
  "yearData list \<Rightarrow> cache \<Rightarrow> int \<Rightarrow> int \<Rightarrow> int \<Rightarrow> (exn + lunarResult reply) \<times> cache" where
  "solarToLunar tbl cache y m d =
     (case formatDate y m d (Some minYear) of
        Err c msg \<Rightarrow> (Inr (Err c msg), cache)
      | Okay inp \<Rightarrow>
          (case cache (year_of inp) of
             Some termList \<Rightarrow>
               (bindE (solarToLunarBody tbl termList inp) (\<lambda>r. Inr (Okay r)), cache)
           | None \<Rightarrow>
               (case getYearTerm (year_of inp) of
                  Inl e \<Rightarrow> (Inl e, cache)
                | Inr termList \<Rightarrow>
                    (bindE (solarToLunarBody tbl termList inp) (\<lambda>r. Inr (Okay r)),
                     cache(year_of inp \<mapsto> termList)))))"

section \<open>Decoding a year\<close>

lemma monthBit_eq: "monthBit md i = (if bit md i then 1 else 0)"
proof -
  have "md AND push_bit i 1 = (if bit md i then push_bit i 1 else 0)"
    by (rule bit_eqI) (auto simp add: bit_and_iff bit_exp_iff)
  then show ?thesis
    by (simp add: monthBit_def drop_bit_exp_eq)
qed

lemma monthLoop_monthDays:
  "monthDays (monthLoop bs acc) = monthDays acc @ map (\<lambda>b. if b = 0 then 29 else 30) bs"
  by (induction bs arbitrary: acc) simp_all

lemma monthLoop_yearDays:
  "yearDays (monthLoop bs acc) = yearDays acc + sum_list (map (\<lambda>b. if b = 0 then 29 else 30) bs)"
  by (induction bs arbitrary: acc) simp_all

lemma length_monthDataArr: "length (monthDataArr md) = 16"
  by (simp add: monthDataArr_def)

lemma nth_monthDataArr:
  "i < 16 \<Longrightarrow> monthDataArr md ! i = (if bit md (15 - i) then 1 else 0)"
  by (simp add: monthDataArr_def rev_nth monthBit_eq)

lemma decodeYear_monthDays:
  "monthDays (decodeYear yd) =
     map (\<lambda>b. if b = 0 then 29 else 30)
       (take (if leapMonth yd \<noteq> 0 then 13 else 12) (monthDataArr (monthData yd)))"
  by (simp add: decodeYear_def monthLoop_monthDays)

lemma decodeYear_length:
  "length (monthDays (decodeYear yd)) = (if leapMonth yd = 0 then 12 else 13)"
  by (simp add: decodeYear_monthDays length_monthDataArr)

lemma decodeYear_nth:
  assumes "i < length (monthDays (decodeYear yd))"
  shows "monthDays (decodeYear yd) ! i = (if bit (monthData yd) (15 - i) then 30 else 29)"
proof -
  from assms have "i < 13" "i < 16"
    by (simp_all add: decodeYear_length split: if_splits)
  with assms show ?thesis
    by (simp add: decodeYear_monthDays nth_monthDataArr length_monthDataArr)
qed

lemma decodeYear_yearDays: "yearDays (decodeYear yd) = sum_list (monthDays (decodeYear yd))"
  by (simp add: decodeYear_def monthLoop_monthDays monthLoop_yearDays)

lemma lunarInfoAt_supported:
  assumes "length tbl = 211" "minYear \<le> year" "year \<le> maxYear"
  shows "lunarInfoAt tbl year = Inr (tbl ! nat (year - minYear))"
  using assms by (simp add: lunarInfoAt_def py_nth_def minYear_def maxYear_def)

lemma length_sampleInfo: "length sampleInfo = 211"
  by (simp add: sampleInfo_def)

text \<open>
  Claim C3. For a table with one row for each year from 1890 to 2100 and a year in that
  range, \<open>__getLunarYearDays\<close> returns without an exception; \<open>monthDays\<close> has 12 entries
  when the row's leap month is 0 and 13 otherwise; entry \<open>i\<close> is 30 when bit \<open>15 - i\<close> of the
  row's mask is set and 29 when it is clear (the most significant of the 16 bits first);
  and \<open>yearDays\<close> is the sum of the entries.
\<close>

theorem getLunarYearDays_decodes:
  assumes "length tbl = 211" and "minYear \<le> year" and "year \<le> maxYear"
  shows "\<exists>yd r. lunarInfoAt tbl year = Inr yd \<and> getLunarYearDays tbl year = Inr r \<and>
           length (monthDays r) = (if leapMonth yd = 0 then 12 else 13) \<and>
           (\<forall>i < length (monthDays r).
              monthDays r ! i = (if bit (monthData yd) (15 - i) then 30 else 29)) \<and>
           yearDays r = sum_list (monthDays r)"
proof -
  let ?yd = "tbl ! nat (year - minYear)"
  have a: "lunarInfoAt tbl year = Inr ?yd"
    using assms by (rule lunarInfoAt_supported)
  then have b: "getLunarYearDays tbl year = Inr (decodeYear ?yd)"
    by (simp add: getLunarYearDays_def)
  show ?thesis
    using a b decodeYear_length [of ?yd] decodeYear_nth [of _ ?yd] decodeYear_yearDays [of ?yd]
    by (intro exI [of _ ?yd] exI [of _ "decodeYear ?yd"]) simp
qed

theorem getLunarYearDays_decodes_witness:
  "length sampleInfo = 211 \<and> minYear \<le> 2023 \<and> 2023 \<le> maxYear \<and>
   (\<exists>yd r. lunarInfoAt sampleInfo 2023 = Inr yd \<and> getLunarYearDays sampleInfo 2023 = Inr r \<and>
      length (monthDays r) = (if leapMonth yd = 0 then 12 else 13) \<and>
      (\<forall>i < length (monthDays r).
         monthDays r ! i = (if bit (monthData yd) (15 - i) then 30 else 29)) \<and>
      yearDays r = sum_list (monthDays r))"
proof -
  have h: "length sampleInfo = 211" "minYear \<le> 2023" "2023 \<le> maxYear"
    by (simp_all add: length_sampleInfo minYear_def maxYear_def)
  from getLunarYearDays_decodes [OF h] h show ?thesis
    by blast
qed

section \<open>Validation\<close>

lemma solarToLunar_Err_iff:
  "fst (solarToLunar tbl cache y m d) = Inr (Err c msg) \<longleftrightarrow>
     (y < 1890 \<or> 2100 < y) \<and> c = 100 \<and> msg = ''Year out of range''"
  by (auto simp: solarToLunar_def formatDate_def minYear_def maxYear_def bindE_def
      split: option.splits sum.splits)

lemma lunarToSolar_Err_iff:
  "lunarToSolar tbl y m d = Inr (Err c msg) \<longleftrightarrow>
     (y < 1891 \<or> 2100 < y) \<and> c = 100 \<and> msg = ''Year out of range''"
  by (auto simp: lunarToSolar_def formatDate_def minYear_def maxYear_def bindE_def
      split: option.splits sum.splits)

text \<open>
  Claim C1, at its boundary year. With the year 1890 \<open>solarToLunar\<close> never returns the
  error reply, whatever the table, the cache, the month and the day, and \<open>lunarToSolar\<close>
  returns the error reply: \<open>solarToLunar\<close> hands \<open>__minYear\<close> to \<open>__formatDate\<close> and
  \<open>lunarToSolar\<close> leaves the default \<open>__minYear + 1\<close>. The two lemmas before give the
  years each entry point refuses.
\<close>

theorem validation_at_minYear:
  "(\<forall>c msg. fst (solarToLunar tbl cache 1890 m d) \<noteq> Inr (Err c msg)) \<and>
   lunarToSolar tbl 1890 m d = Inr (Err 100 ''Year out of range'')"
  by (simp add: solarToLunar_Err_iff lunarToSolar_Err_iff)

section \<open>Offsets inside a lunar year\<close>

lemma zhengLoop_sum:
  "zhengLoop mds i month days = days + sum_list (take (nat (month - i)) mds)"
proof (induction mds arbitrary: i days)
  case Nil
  then show ?case by simp
next
  case (Cons md mds)
  show ?case
  proof (cases "i < month")
    case True
    then have "nat (month - i) = Suc (nat (month - (i + 1)))" by simp
    with True Cons show ?thesis by simp
  next
    case False
    then show ?thesis by simp
  qed
qed

lemma betweenLoop_found:
  assumes "\<forall>x \<in> set mds. 0 \<le> x" and "j < length mds"
    and "sum_list (take j mds) \<le> en - t" and "en - t < sum_list (take (Suc j) mds)"
  shows "betweenLoop mds i t en = (i + int j, t + sum_list (take j mds))"
  using assms
proof (induction mds arbitrary: i t j)
  case Nil
  then show ?case by simp
next
  case (Cons md mds)
  show ?case
  proof (cases j)
    case 0
    with Cons.prems show ?thesis by simp
  next
    case (Suc j')
    have nn: "0 \<le> sum_list (take j' mds)"
      using Cons.prems(1) by (intro sum_list_nonneg) (auto dest: in_set_takeD)
    from Suc Cons.prems have a: "\<not> t + md > en" using nn by simp
    have "betweenLoop mds (i + 1) (t + md) en = (i + 1 + int j', t + md + sum_list (take j' mds))"
      using Cons.prems Suc by (intro Cons.IH) auto
    with a Suc show ?thesis by simp
  qed
qed

lemma betweenLoop_none:
  assumes "\<forall>x \<in> set mds. 0 \<le> x" and "sum_list mds \<le> en - t"
  shows "betweenLoop mds i t en = (0, t + sum_list mds)"
  using assms
proof (induction mds arbitrary: i t)
  case Nil
  then show ?case by simp
next
  case (Cons md mds)
  have "0 \<le> sum_list mds" using Cons.prems(1) by (intro sum_list_nonneg) auto
  with Cons.prems have a: "\<not> t + md > en" by simp
  have "betweenLoop mds (i + 1) (t + md) en = (0, t + md + sum_list mds)"
    using Cons.prems by (intro Cons.IH) auto
  with a show ?case by simp
qed


lemma decodeYear_entries: "x \<in> set (monthDays (decodeYear yd)) \<Longrightarrow> x = 29 \<or> x = 30"
  by (auto simp add: decodeYear_monthDays)

lemma lunarDateIn_inverse:
  assumes mds: "\<forall>x \<in> set (monthDays lyd). x = 29 \<or> x = 30"
    and yd: "yearDays lyd = sum_list (monthDays lyd)"
    and m: "0 \<le> m" "m < int (length (monthDays lyd))"
    and d: "1 \<le> d" "d \<le> monthDays lyd ! nat m"
  shows "lunarDateIn lyd year (sum_list (take (nat m) (monthDays lyd)) + d - 1)
           = \<lparr>lyear = year, lmonth = m, lday = d\<rparr>"
proof -
  let ?mds = "monthDays lyd"
  let ?S = "sum_list (take (nat m) ?mds)"
  let ?b = "?S + d - 1"
  have nn: "\<forall>x \<in> set ?mds. 0 \<le> x" using mds by auto
  have S0: "0 \<le> ?S" using nn by (intro sum_list_nonneg) (auto dest: in_set_takeD)
  have j: "nat m < length ?mds" using m by simp
  show ?thesis
  proof (cases "?b > 0")
    case True
    have "sum_list (take (Suc (nat m)) ?mds) = ?S + ?mds ! nat m"
      using j by (simp add: take_Suc_conv_app_nth)
    then have "betweenLoop ?mds 0 0 ?b = (0 + int (nat m), 0 + ?S)"
      using nn j d by (intro betweenLoop_found) auto
    with True m show ?thesis by (simp add: lunarDateIn_def)
  next
    case False
    with S0 d have b0: "?b = 0" and s0: "?S = 0" and d1: "d = 1" by auto
    have m0: "m = 0"
    proof (rule ccontr)
      assume "m \<noteq> 0"
      with m j obtain k where k: "nat m = Suc k" by (cases "nat m") auto
      from j k have "?mds \<noteq> []" by auto
      then obtain a rest where ar: "?mds = a # rest" by (cases ?mds) auto
      have "0 \<le> sum_list (take k rest)"
        using nn ar by (intro sum_list_nonneg) (auto dest: in_set_takeD)
      moreover have "29 \<le> a" using mds ar by auto
      ultimately show False using s0 k ar by simp
    qed
    have "betweenLoop ?mds 0 0 (yearDays lyd + ?b) = (0, 0 + sum_list ?mds)"
      using nn yd b0 by (intro betweenLoop_none) auto
    with b0 d1 m0 yd show ?thesis by (simp add: lunarDateIn_def)
  qed
qed

text \<open>
  Claim C4. For a table with one row for each year from 1890 to 2100, a year in that range,
  a month index \<open>m\<close> inside the year's \<open>monthDays\<close> and a day \<open>d\<close> from 1 to
  \<open>monthDays[m]\<close>: \<open>__getDaysBetweenZheng\<close> returns the sum of the months before \<open>m\<close>
  plus \<open>d - 1\<close>, and \<open>__getLunarDateByBetween\<close> at that offset returns \<open>[year, m, d]\<close>.
\<close>

theorem offset_inverse:
  assumes "length tbl = 211" and "minYear \<le> year" and "year \<le> maxYear"
  shows "\<exists>lyd. getLunarYearDays tbl year = Inr lyd \<and>
           (\<forall>m d. 0 \<le> m \<and> m < int (length (monthDays lyd)) \<and>
                  1 \<le> d \<and> d \<le> monthDays lyd ! nat m \<longrightarrow>
              getDaysBetweenZheng tbl year m d
                = Inr (sum_list (take (nat m) (monthDays lyd)) + d - 1) \<and>
              getLunarDateByBetween tbl year (sum_list (take (nat m) (monthDays lyd)) + d - 1)
                = Inr \<lparr>lyear = year, lmonth = m, lday = d\<rparr>)"
proof -
  let ?lyd = "decodeYear (tbl ! nat (year - minYear))"
  have g: "getLunarYearDays tbl year = Inr ?lyd"
    using lunarInfoAt_supported [OF assms] by (simp add: getLunarYearDays_def)
  have e: "\<forall>x \<in> set (monthDays ?lyd). x = 29 \<or> x = 30"
    using decodeYear_entries by blast
  show ?thesis
  proof (intro exI [of _ ?lyd] conjI allI impI)
    show "getLunarYearDays tbl year = Inr ?lyd" by (rule g)
  next
    fix m d
    show "getDaysBetweenZheng tbl year m d
            = Inr (sum_list (take (nat m) (monthDays ?lyd)) + d - 1)"
      by (simp add: getDaysBetweenZheng_def g zhengLoop_sum)
  next
    fix m d
    assume "0 \<le> m \<and> m < int (length (monthDays ?lyd)) \<and> 1 \<le> d \<and> d \<le> monthDays ?lyd ! nat m"
    then show "getLunarDateByBetween tbl year (sum_list (take (nat m) (monthDays ?lyd)) + d - 1)
                 = Inr \<lparr>lyear = year, lmonth = m, lday = d\<rparr>"
      using lunarDateIn_inverse [OF e decodeYear_yearDays, of m d year]
      by (simp add: getLunarDateByBetween_def g)
  qed
qed

theorem offset_inverse_witness:
  "length sampleInfo = 211 \<and> minYear \<le> 2023 \<and> 2023 \<le> maxYear \<and>
   (\<exists>lyd. getLunarYearDays sampleInfo 2023 = Inr lyd \<and>
      (0::int) \<le> 2 \<and> 2 < int (length (monthDays lyd)) \<and> (1::int) \<le> 29 \<and>
      29 \<le> monthDays lyd ! nat 2 \<and>
      getDaysBetweenZheng sampleInfo 2023 2 29
        = Inr (sum_list (take (nat 2) (monthDays lyd)) + 29 - 1) \<and>
      getLunarDateByBetween sampleInfo 2023 (sum_list (take (nat 2) (monthDays lyd)) + 29 - 1)
        = Inr \<lparr>lyear = 2023, lmonth = 2, lday = 29\<rparr>)"
proof -
  have h: "length sampleInfo = 211" "minYear \<le> 2023" "2023 \<le> maxYear"
    by (simp_all add: length_sampleInfo minYear_def maxYear_def)
  from offset_inverse [OF h] obtain lyd where
    g: "getLunarYearDays sampleInfo 2023 = Inr lyd" and
    a: "\<And>m d. 0 \<le> m \<and> m < int (length (monthDays lyd)) \<and> 1 \<le> d \<and> d \<le> monthDays lyd ! nat m \<Longrightarrow>
          getDaysBetweenZheng sampleInfo 2023 m d
            = Inr (sum_list (take (nat m) (monthDays lyd)) + d - 1) \<and>
          getLunarDateByBetween sampleInfo 2023 (sum_list (take (nat m) (monthDays lyd)) + d - 1)
            = Inr \<lparr>lyear = 2023, lmonth = m, lday = d\<rparr>"
    by blast
  have l: "lyd = decodeYear (row 2 1 22 19880)"
    using g lunarInfoAt_supported [OF h]
    by (simp add: getLunarYearDays_def sampleInfo_def minYear_def)
  have len: "length (monthDays lyd) = 13"
    by (simp add: l decodeYear_length row_def)
  have "bit (19880::int) 13 = False"
    by (simp add: bit_iff_odd)
  then have n: "monthDays lyd ! nat 2 = 29"
    using decodeYear_nth [of 2 "row 2 1 22 19880"] len by (simp add: l row_def)
  have c: "(0::int) \<le> 2 \<and> 2 < int (length (monthDays lyd)) \<and> (1::int) \<le> 29 \<and>
           29 \<le> monthDays lyd ! nat 2"
    using len n by simp
  from a [OF c] c g h show ?thesis by blast
qed

section \<open>Day numbers and back\<close>

lemma days_before_month_rec:
  "days_before_month y m =
     (if m \<le> 1 then 0 else days_before_month y (m - 1) + days_in_month y (m - 1))"
proof (cases "m \<le> 1")
  case True
  then show ?thesis by (simp add: days_before_month_def)
next
  case False
  then have "[1..m - 1] = [1..m - 1 - 1] @ [m - 1]"
    by (intro upto_rec2) simp
  with False show ?thesis by (simp add: days_before_month_def)
qed

lemma days_in_month_pos: "28 \<le> days_in_month y m"
  by (simp add: days_in_month_def)

lemma days_before_month_next:
  "1 \<le> m \<Longrightarrow> days_before_month y (m + 1) = days_before_month y m + days_in_month y m"
  using days_before_month_rec [of y "m + 1"] by simp

lemma days_before_month_mono:
  assumes "1 \<le> a" and "a \<le> b"
  shows "days_before_month y a \<le> days_before_month y b"
  using assms(2,1)
proof (induction b rule: int_ge_induct)
  case base
  then show ?case by simp
next
  case (step i)
  then show ?case
    using days_before_month_next [of i y] days_in_month_pos [of y i] by simp
qed

lemma days_before_year_mono:
  assumes "a \<le> b"
  shows "days_before_year a \<le> days_before_year b"
  using assms
proof (induction b rule: int_ge_induct)
  case base
  then show ?case by simp
next
  case (step i)
  then show ?case using days_before_year_less [of i] by simp
qed

lemma days_before_month_13:
  "days_before_month y 13 = (if isLeapYear y then 366 else 365)"
  by (simp add: days_before_month_rec days_in_month_def)

lemma find_month_correct:
  assumes "1 \<le> m0" and "m0 \<le> m" and "m \<le> 12" and "1 \<le> d" and "d \<le> days_in_month y m"
  shows "find_month y m0 (days_before_month y m - days_before_month y m0 + d) = (m, d)"
  using assms
proof (induction "nat (m - m0)" arbitrary: m0)
  case 0
  then have "m0 = m" by simp
  with 0 show ?case by (simp add: find_month.simps)
next
  case (Suc k)
  then have lt: "m0 < m" by simp
  have "days_before_month y (m0 + 1) \<le> days_before_month y m"
    using Suc.prems lt by (intro days_before_month_mono) auto
  then have ge: "days_in_month y m0 < days_before_month y m - days_before_month y m0 + d"
    using days_before_month_next [of m0 y] Suc.prems by simp
  have "find_month y (m0 + 1) (days_before_month y m - days_before_month y (m0 + 1) + d) = (m, d)"
    using Suc lt by (intro Suc.hyps) auto
  then show ?case
    using ge lt Suc.prems days_before_month_next [of m0 y]
    by (subst find_month.simps) (simp add: algebra_simps)
qed

lemma find_year_correct:
  assumes "y0 \<le> y" and "days_before_year y < n" and "n \<le> days_before_year (y + 1)"
  shows "find_year n y0 = y"
  using assms
proof (induction "nat (y - y0)" arbitrary: y0)
  case 0
  then have "y0 = y" by simp
  with 0 show ?case by (simp add: find_year.simps)
next
  case (Suc k)
  then have lt: "y0 < y" by simp
  then have "days_before_year (y0 + 1) \<le> days_before_year y"
    by (intro days_before_year_mono) simp
  then have c: "days_before_year (y0 + 1) < n" using Suc.prems by simp
  have "find_year n (y0 + 1) = y"
    using Suc lt by (intro Suc.hyps) auto
  with c show ?case by (subst find_year.simps) simp
qed

lemma days_before_year_le: "1 \<le> y \<Longrightarrow> days_before_year y \<le> 366 * (y - 1)"
proof (induction y rule: int_ge_induct)
  case base
  then show ?case by (simp add: days_before_year_def)
next
  case (step i)
  then show ?case using days_before_year_next [of i] by (simp split: if_splits)
qed

lemma toordinal_bounds:
  assumes "valid_date y m d"
  shows "days_before_year y < toordinal \<lparr>dyear = y, dmonth = m, dday = d\<rparr>"
    and "toordinal \<lparr>dyear = y, dmonth = m, dday = d\<rparr> \<le> days_before_year (y + 1)"
proof -
  from assms have m: "1 \<le> m" "m \<le> 12" and d: "1 \<le> d" "d \<le> days_in_month y m"
    by (simp_all add: valid_date_def)
  have "0 \<le> days_before_month y m"
    using days_before_month_mono [of 1 m y] m by (simp add: days_before_month_rec [of y 1])
  then show "days_before_year y < toordinal \<lparr>dyear = y, dmonth = m, dday = d\<rparr>"
    using d by (simp add: toordinal_def)
  have "days_before_month y (m + 1) \<le> days_before_month y 13"
    using m by (intro days_before_month_mono) auto
  then have "days_before_month y m + d \<le> (if isLeapYear y then 366 else 365)"
    using days_before_month_next [of m y] m d by (simp add: days_before_month_13)
  then show "toordinal \<lparr>dyear = y, dmonth = m, dday = d\<rparr> \<le> days_before_year (y + 1)"
    by (simp add: toordinal_def days_before_year_next)
qed

lemma fromordinal_toordinal:
  assumes "valid_date y m d"
  shows "fromordinal (toordinal \<lparr>dyear = y, dmonth = m, dday = d\<rparr>)
           = \<lparr>dyear = y, dmonth = m, dday = d\<rparr>"
proof -
  let ?n = "toordinal \<lparr>dyear = y, dmonth = m, dday = d\<rparr>"
  from assms have y: "1 \<le> y" and m: "1 \<le> m" "m \<le> 12" and d: "1 \<le> d" "d \<le> days_in_month y m"
    by (simp_all add: valid_date_def)
  note b = toordinal_bounds [OF assms]
  have "?n \<le> 366 * y"
    using b(2) days_before_year_le [of "y + 1"] y by simp
  then have "(?n - 1) div 366 < y"
    by (simp add: div_less_iff_less_mult)
  then have fy: "find_year ?n ((?n - 1) div 366 + 1) = y"
    using b by (intro find_year_correct) auto
  have "find_month y 1 (days_before_month y m - days_before_month y 1 + d) = (m, d)"
    using m d by (intro find_month_correct) auto
  then have fm: "find_month y 1 (?n - days_before_year y) = (m, d)"
    by (simp add: toordinal_def days_before_month_rec [of y 1])
  show ?thesis
    unfolding fromordinal_def Let_def fy fm by simp
qed

section \<open>Rounding to a double\<close>

lemma pow2_powi: "pow2 e = 2 powi e"
  by (simp add: pow2_def power_int_def inverse_eq_divide power_one_over)

lemma pow2_pos: "0 < pow2 e"
  by (simp add: pow2_powi)

lemma pow2_add: "pow2 (a + b) = pow2 a * pow2 b"
  by (simp add: pow2_powi power_int_add)

lemma pow2_nat: "pow2 (int n) = 2 ^ n"
  by (simp add: pow2_powi)

lemma round_half_even_error: "\<bar>of_int (round_half_even x) - x\<bar> \<le> 1 / 2"
proof -
  have "of_int \<lfloor>x\<rfloor> \<le> x" "x < of_int \<lfloor>x\<rfloor> + 1" by linarith+
  then show ?thesis
    by (auto simp add: round_half_even_def Let_def abs_le_iff)
qed

lemma round_half_even_int: "round_half_even (of_int z) = z"
  by (simp add: round_half_even_def)

lemma ilog2_le:
  assumes "1 \<le> x"
  shows "pow2 (ilog2 x) \<le> x"
proof -
  have f: "0 < \<lfloor>x\<rfloor>" using assms by linarith
  then have b: "1 \<le> bitlen \<lfloor>x\<rfloor>"
    using bitlen_ge_iff_power [of 1 "\<lfloor>x\<rfloor>"] by simp
  have "(2::int) ^ nat (bitlen \<lfloor>x\<rfloor> - 1) \<le> \<lfloor>x\<rfloor>"
    using bitlen_bounds [OF f] by simp
  then have "(of_int ((2::int) ^ nat (bitlen \<lfloor>x\<rfloor> - 1)) :: rat) \<le> of_int \<lfloor>x\<rfloor>"
    by (simp only: of_int_le_iff)
  also have "\<dots> \<le> x" by linarith
  finally show ?thesis
    using assms b by (simp add: ilog2_def pow2_def)
qed

lemma fl_error:
  assumes "1 \<le> x"
  shows "\<bar>fl x - x\<bar> \<le> pow2 (ilog2 x) / 2 ^ 53"
proof -
  let ?e = "ilog2 x - 52"
  let ?z = "x / pow2 ?e"
  have p: "0 < pow2 ?e" by (rule pow2_pos)
  have x: "x = ?z * pow2 ?e" using p by simp
  have "fl x = of_int (round_half_even ?z) * pow2 ?e"
    using assms by (simp add: fl_def Let_def)
  then have "fl x - x = (of_int (round_half_even ?z) - ?z) * pow2 ?e"
    using p by (simp add: algebra_simps)
  then have "\<bar>fl x - x\<bar> = \<bar>of_int (round_half_even ?z) - ?z\<bar> * pow2 ?e"
    using p by (simp add: abs_mult)
  also have "\<dots> \<le> 1 / 2 * pow2 ?e"
    using round_half_even_error [of ?z] p by (intro mult_right_mono) auto
  also have "\<dots> = pow2 (ilog2 x) / 2 ^ 53"
  proof -
    have "pow2 (ilog2 x) = pow2 (?e + 52)" by simp
    also have "\<dots> = pow2 ?e * 2 ^ 52" by (simp only: pow2_add) (simp add: pow2_def)
    finally show ?thesis by simp
  qed
  finally show ?thesis .
qed

lemma fl_error_bound:
  assumes "1 \<le> x" and "x \<le> b"
  shows "\<bar>fl x - x\<bar> \<le> b / 2 ^ 53"
proof -
  have "pow2 (ilog2 x) \<le> b" using ilog2_le [OF assms(1)] assms(2) by simp
  then have "pow2 (ilog2 x) / 2 ^ 53 \<le> b / 2 ^ 53" by (simp add: divide_right_mono)
  with fl_error [OF assms(1)] show ?thesis by simp
qed

lemma fl_int:
  assumes "0 \<le> j" and "j < 2 ^ 53"
  shows "fl (of_int j) = of_int j"
proof (cases "j = 0")
  case True
  then show ?thesis by (simp add: fl_def)
next
  case False
  with assms have j: "0 < j" by simp
  define e where "e = ilog2 \<bar>rat_of_int j\<bar> - 52"
  define s where "s = nat (- e)"
  have b1: "1 \<le> bitlen j" using bitlen_ge_iff_power [of 1 j] j by simp
  have b2: "bitlen j \<le> 53" using bitlen_le_iff_power [of j 53] assms by simp
  have "e = bitlen j - 1 - 52" using j by (simp add: e_def ilog2_def)
  then have e0: "e \<le> 0" using b2 by simp
  have pe: "pow2 e = 1 / 2 ^ s"
    using e0 by (cases "e = 0") (simp_all add: pow2_def s_def)
  have nz: "rat_of_int j \<noteq> 0" using j by simp
  have "fl (of_int j) = sgn (rat_of_int j) * of_int (round_half_even (\<bar>rat_of_int j\<bar> / pow2 e)) * pow2 e"
    unfolding fl_def Let_def e_def by (simp only: nz if_False)
  moreover have "\<bar>rat_of_int j\<bar> / pow2 e = of_int (j * 2 ^ s)"
    using j by (simp add: pe)
  ultimately have "fl (of_int j) = sgn (rat_of_int j) * of_int (j * 2 ^ s) * pow2 e"
    by (simp only: round_half_even_int)
  then show ?thesis using j by (simp add: pe)
qed

section \<open>Solar terms: the rounded computation against the exact instant\<close>

definition termTicks :: "int \<Rightarrow> int \<Rightarrow> int" where
  "termTicks y t = epoch_us div 100 + 315569259747 * (y - 1890) + t * 600000"

definition termOrdinal :: "int \<Rightarrow> int \<Rightarrow> int" where
  "termOrdinal y t = termTicks y t div 864000000"

lemma orbit_error: "\<bar>fl (315569259747 / 10) - 315569259747 / 10\<bar> \<le> 1 / 2 ^ 18"
proof -
  have "\<bar>fl (315569259747 / 10) - 315569259747 / 10\<bar> \<le> 2 ^ 35 / 2 ^ 53"
    by (rule fl_error_bound) simp_all
  then show ?thesis by simp
qed

lemma fl_error_43:
  assumes "1 \<le> x" and "x \<le> 8796093022208"
  shows "\<bar>fl x - x\<bar> \<le> 1 / 1024"
proof -
  have "\<bar>fl x - x\<bar> \<le> 8796093022208 / 2 ^ 53"
    using assms by (rule fl_error_bound)
  then show ?thesis by simp
qed

lemma float_of_int_small:
  assumes "0 \<le> k" and "k \<le> 210"
  shows "float_of_int k = Inr (fl (of_int k))"
proof -
  have "fl (of_int k) = of_int k"
    using assms by (intro fl_int) auto
  moreover have "\<bar>rat_of_int k\<bar> \<le> 210"
    using assms by simp
  moreover have "(210::rat) < 2 ^ 1024"
    by simp
  ultimately show ?thesis
    by (simp add: float_of_int_def Let_def)
qed

lemma offsetms_error:
  assumes k: "0 \<le> y - 1890" "y - 1890 \<le> 210" and t: "0 \<le> t" "t \<le> 504758"
  shows "\<bar>offsetms (fl (of_int (y - 1890))) t
            - (315569259747 / 10 * of_int (y - 1890) + of_int (t * 60000))\<bar>
           \<le> 3 / 1024"
proof -
  define c :: rat where "c = 315569259747 / 10"
  define C where "C = fl c"
  define K :: rat where "K = of_int (y - 1890)"
  define T :: rat where "T = of_int (t * 60000)"
  have "\<bar>C - c\<bar> \<le> 1 / 2 ^ 18" unfolding C_def c_def by (rule orbit_error)
  then have Ce: "\<bar>C - c\<bar> \<le> 1 / 262144" by simp
  have flK: "fl (of_int (y - 1890)) = K"
    unfolding K_def using k by (intro fl_int) auto
  have "t * 60000 \<le> 504758 * 60000" using t by simp
  then have flT: "fl (of_int (t * 60000)) = T"
    unfolding T_def using t by (intro fl_int) auto
  have T0: "0 \<le> T" "T \<le> 30285480000"
    using t by (simp_all add: T_def)
  have off: "offsetms (fl (of_int (y - 1890))) t = fl (fl (C * K) + T)"
    by (simp only: offsetms_def C_def c_def flK flT)
  show ?thesis
  proof (cases "y - 1890 = 0")
    case True
    then have "K = 0" by (simp add: K_def)
    then have "fl (fl (C * K) + T) = fl T" by (simp add: fl_def)
    then have "offsetms (fl (of_int (y - 1890))) t = fl T" by (simp only: off)
    also have "\<dots> = T" using flT by (simp only: T_def)
    finally have a: "offsetms (fl (of_int (y - 1890))) t = T" .
    have b: "315569259747 / 10 * rat_of_int (y - 1890) = 0"
      unfolding True by simp
    show ?thesis unfolding a b T_def by simp
  next
    case False
    with k have K1: "1 \<le> K" "K \<le> 210" by (simp_all add: K_def)
    have Cl: "31556925974 \<le> C" and Cu: "C \<le> 31556925975"
      using Ce unfolding c_def by linarith+
    have x1l: "31556925974 \<le> C * K"
      using mult_mono [of 31556925974 C 1 K] Cl K1 by simp
    have x1u: "C * K \<le> 31556925975 * 210"
      using mult_mono [of C 31556925975 K 210] Cl Cu K1 by simp
    have e1: "\<bar>fl (C * K) - C * K\<bar> \<le> 1 / 1024"
      using x1l x1u by (intro fl_error_43) auto
    have e0: "\<bar>C * K - c * K\<bar> \<le> 210 / 262144"
    proof -
      have "\<bar>C * K - c * K\<bar> = \<bar>C - c\<bar> * K"
        using K1 by (simp add: abs_mult left_diff_distrib [symmetric])
      also have "\<dots> \<le> 1 / 262144 * 210"
        using Ce K1 by (intro mult_mono) auto
      finally show ?thesis by simp
    qed
    define p where "p = fl (C * K)"
    have pl: "31556925973 \<le> p" and pu: "p \<le> 31556925975 * 210 + 1"
      using e1 x1l x1u unfolding p_def by linarith+
    have e2: "\<bar>fl (p + T) - (p + T)\<bar> \<le> 1 / 1024"
      using pl pu T0 by (intro fl_error_43) auto
    have "\<bar>fl (p + T) - (c * K + T)\<bar> \<le> 3 / 1024"
      using e0 e1 e2 unfolding p_def by linarith
    then show ?thesis
      by (simp only: off p_def c_def K_def T_def)
  qed
qed


lemma timedelta_ms_offsetms:
  assumes k: "0 \<le> y - 1890" "y - 1890 \<le> 210" and t: "0 \<le> t" "t \<le> 504758"
  shows "\<exists>us. timedelta_ms (offsetms (fl (of_int (y - 1890))) t) = Inr us \<and>
           \<bar>us - (31556925974700 * (y - 1890) + t * 60000000)\<bar> \<le> 3"
proof -
  define X where "X = 31556925974700 * (y - 1890) + t * 60000000"
  define s where "s = offsetms (fl (of_int (y - 1890))) t"
  define us where "us = round_half_even (s * 1000)"
  define E :: rat where "E = 315569259747 / 10 * of_int (y - 1890) + of_int (t * 60000)"
  have "(315569259747 / 10 * K + T * 60000) * 1000 = 31556925974700 * K + T * 60000000"
    for K T :: rat by simp
  then have eX: "E * 1000 = rat_of_int X"
    unfolding X_def E_def by (simp only: of_int_add of_int_mult of_int_numeral)
  have "\<bar>s - E\<bar> \<le> 3 / 1024"
    unfolding s_def E_def using assms by (rule offsetms_error)
  with eX have "\<bar>s * 1000 - rat_of_int X\<bar> \<le> 3"
    by linarith
  moreover have "\<bar>rat_of_int us - s * 1000\<bar> \<le> 1 / 2"
    unfolding us_def by (rule round_half_even_error)
  ultimately have "\<bar>rat_of_int us - rat_of_int X\<bar> \<le> 7 / 2"
    by linarith
  then have "\<bar>rat_of_int (us - X)\<bar> < rat_of_int 4"
    by simp
  then have "\<bar>us - X\<bar> < 4"
    by (simp only: of_int_abs [symmetric] of_int_less_iff)
  then have c: "\<bar>us - X\<bar> \<le> 3" by simp
  have "0 \<le> X" using k t by (simp add: X_def)
  moreover have "31556925974700 * (y - 1890) \<le> 31556925974700 * 210" using k by simp
  then have "X \<le> 31556925974700 * 210 + 504758 * 60000000" using t by (simp add: X_def)
  ultimately have lo: "- 3 \<le> us" and hi: "us \<le> 6657239934687003" using c by simp_all
  have "(- 3) div 86400000000 \<le> us div 86400000000"
    using lo by (intro zdiv_mono1) simp_all
  moreover have "us div 86400000000 \<le> 6657239934687003 div 86400000000"
    using hi by (intro zdiv_mono1) simp_all
  ultimately have "\<bar>us div 86400000000\<bar> \<le> 999999999" by simp
  then have "timedelta_ms (offsetms (fl (of_int (y - 1890))) t) = Inr us"
    by (simp add: timedelta_ms_def us_def s_def Let_def)
  with c show ?thesis unfolding X_def by blast
qed

lemma epoch_us_eq: "epoch_us = 59611564951000000"
  by (simp add: epoch_us_def toordinal_def days_before_year_def days_before_month_rec)

lemma ticks_not_midnight_aux: "0 \<le> k \<Longrightarrow> k \<le> 210 \<Longrightarrow> (10000 + 59747 * k) mod 100000 \<noteq> (0::int)"
proof
  assume k: "0 \<le> k" "k \<le> 210" and z: "(10000 + 59747 * k) mod 100000 = 0"
  have "(10000 + 59747 * k) mod 10 = 0"
    using z mod_mod_cancel [of 10 100000 "10000 + 59747 * k"] by simp
  moreover have "10000 + 59747 * k = 7 * k + 10 * (1000 + 5974 * k)" by simp
  ultimately have "(7 * k) mod 10 = 0" by (simp only: mod_mult_self2)
  then have "k mod 10 = 0" by presburger
  then obtain j where j: "k = 10 * j" by (auto simp: mod_eq_0_iff_dvd)
  with k have jr: "0 \<le> j" "j \<le> 21" by simp_all
  have "(10000 + 597470 * j) mod 100000 = 0" using z j by simp
  then have "(1000 + 59747 * j) mod 10000 = 0"
    using mod_mult_mult1 [of 10 "1000 + 59747 * j" 10000] by simp
  then have "(1000 + 59747 * j) mod 10 = 0"
    using mod_mod_cancel [of 10 10000 "1000 + 59747 * j"] by simp
  moreover have "1000 + 59747 * j = 7 * j + 10 * (100 + 5974 * j)" by simp
  ultimately have "(7 * j) mod 10 = 0" by (simp only: mod_mult_self2)
  then have "j mod 10 = 0" by presburger
  with jr have "j = 0 \<or> j = 10 \<or> j = 20" by presburger
  with \<open>(1000 + 59747 * j) mod 10000 = 0\<close> show False by auto
qed

lemma ticks_not_midnight:
  assumes k: "0 \<le> y - 1890" "y - 1890 \<le> 210"
  shows "termTicks y t mod 864000000 \<noteq> 0"
proof
  assume z: "termTicks y t mod 864000000 = 0"
  have "termTicks y t mod 100000 = 0"
    using z mod_mod_cancel [of 100000 864000000 "termTicks y t"] by simp
  moreover have "termTicks y t = 10000 + 59747 * (y - 1890)
      + 100000 * (5961156495 + 3155692 * (y - 1890) + 6 * t)"
    by (simp add: termTicks_def epoch_us_eq)
  ultimately have "(10000 + 59747 * (y - 1890)) mod 100000 = 0"
    by (simp only: mod_mult_self2)
  then show False
    using ticks_not_midnight_aux [OF k] by simp
qed

lemma day_stable:
  assumes "N mod 864000000 \<noteq> 0" and "\<bar>e\<bar> \<le> (3::int)"
  shows "(100 * N + e) div 86400000000 = N div 864000000"
proof -
  define q r where "q = N div 864000000" and "r = N mod 864000000"
  have r: "1 \<le> r" "r \<le> 863999999"
    using assms(1) pos_mod_sign [of 864000000 N] pos_mod_bound [of 864000000 N]
    by (simp_all add: r_def)
  have N: "N = 864000000 * q + r" by (simp add: q_def r_def)
  have "100 * N + e = 86400000000 * q + (100 * r + e)" by (simp add: N)
  moreover have "0 \<le> 100 * r + e" "100 * r + e < 86400000000"
    using r assms(2) by simp_all
  ultimately show ?thesis unfolding q_def by (intro int_div_pos_eq)
qed

lemma termOrdinal_bounds:
  assumes k: "0 \<le> y - 1890" "y - 1890 \<le> 210" and t: "0 \<le> t" "t \<le> 504758"
  shows "689948 \<le> termOrdinal y t" and "termOrdinal y t \<le> 767000"
proof -
  have "315569259747 * (y - 1890) \<le> 315569259747 * 210" using k by simp
  then have "596115649510000 \<le> termTicks y t" "termTicks y t \<le> 662688048856870"
    using k t by (simp_all add: termTicks_def epoch_us_eq)
  then have "596115649510000 div 864000000 \<le> termOrdinal y t"
    and "termOrdinal y t \<le> 662688048856870 div 864000000"
    unfolding termOrdinal_def by (intro zdiv_mono1; simp)+
  then show "689948 \<le> termOrdinal y t" and "termOrdinal y t \<le> 767000" by simp_all
qed

lemma termInfo_range:
  assumes "0 \<le> n" and "n < 24"
  shows "py_nth termInfo n = Inr (termInfo ! nat n)"
    and "0 \<le> termInfo ! nat n" and "termInfo ! nat n \<le> 504758"
proof -
  show "py_nth termInfo n = Inr (termInfo ! nat n)"
    using assms by (simp add: py_nth_def termInfo_def)
  have "\<forall>x \<in> set termInfo. 0 \<le> x \<and> x \<le> 504758" by (simp add: termInfo_def)
  moreover have "termInfo ! nat n \<in> set termInfo"
    using assms by (intro nth_mem) (simp add: termInfo_def)
  ultimately show "0 \<le> termInfo ! nat n" and "termInfo ! nat n \<le> 504758" by blast+
qed

lemma getTerm_exact:
  assumes y: "1890 \<le> y" "y \<le> 2100" and n: "0 \<le> n" "n < 24"
  shows "getTerm y n = Inr (dday (fromordinal (termOrdinal y (termInfo ! nat n))))"
proof -
  let ?t = "termInfo ! nat n"
  have k: "0 \<le> y - 1890" "y - 1890 \<le> 210" using y by simp_all
  note ti = termInfo_range [OF n]
  from timedelta_ms_offsetms [OF k ti(2,3)] obtain us where
    us: "timedelta_ms (offsetms (fl (of_int (y - 1890))) ?t) = Inr us" and
    cl: "\<bar>us - (31556925974700 * (y - 1890) + ?t * 60000000)\<bar> \<le> 3"
    by blast
  define e where "e = us - (31556925974700 * (y - 1890) + ?t * 60000000)"
  have ae: "\<bar>e\<bar> \<le> 3" using cl by (simp only: e_def)
  have "epoch_us + us = 100 * termTicks y ?t + e"
    by (simp add: termTicks_def epoch_us_eq e_def)
  then have "(epoch_us + us) div 86400000000 = (100 * termTicks y ?t + e) div 86400000000"
    by (simp only:)
  also have "\<dots> = termTicks y ?t div 864000000"
    using ticks_not_midnight [OF k] ae by (rule day_stable)
  finally have "(epoch_us + us) div 86400000000 = termOrdinal y ?t"
    by (simp only: termOrdinal_def)
  moreover note termOrdinal_bounds [OF k ti(2,3)]
  ultimately have dd: "datetime_add_day us = Inr (dday (fromordinal (termOrdinal y ?t)))"
    by (simp add: datetime_add_day_def maxordinal_def Let_def)
  have fo: "float_of_int (y - 1890) = Inr (fl (of_int (y - 1890)))"
    using k by (rule float_of_int_small)
  show ?thesis
    by (simp only: getTerm_def fo ti(1) us dd bindE_Inr)
qed

text \<open>
  The instant the specification describes, in exact arithmetic: milliseconds counted from
  the start of day number 0, so that the day number of an instant is the floor of its
  quotient by the milliseconds of a day.
\<close>

definition termInstantMs :: "int \<Rightarrow> int \<Rightarrow> rat" where
  "termInstantMs y n =
     of_int epoch_us / 1000 + 315569259747 / 10 * of_int (y - 1890)
       + of_int (termInfo ! nat n) * 60000"

definition getTermSpec :: "int \<Rightarrow> int \<Rightarrow> int" where
  "getTermSpec y n = dday (fromordinal \<lfloor>termInstantMs y n / 86400000\<rfloor>)"

lemma termInstantMs_ticks:
  "termInstantMs y n / 86400000 = of_int (termTicks y (termInfo ! nat n)) / of_int 864000000"
proof -
  have g: "(59611564951000000 / 1000 + 315569259747 / 10 * K + T * 60000) / 86400000
             = (596115649510000 + 315569259747 * K + T * 600000) / 864000000"
    for K T :: rat by simp
  have t: "termTicks y t = 596115649510000 + 315569259747 * (y - 1890) + t * 600000" for t
    by (simp add: termTicks_def epoch_us_eq)
  show ?thesis
    unfolding termInstantMs_def t epoch_us_eq
    by (simp only: of_int_add of_int_mult of_int_numeral g)
qed

lemma getTermSpec_ordinal:
  "getTermSpec y n = dday (fromordinal (termOrdinal y (termInfo ! nat n)))"
  unfolding getTermSpec_def termInstantMs_ticks termOrdinal_def
  by (simp only: floor_divide_of_int_eq)

text \<open>
  Claim C5. For a year from 1890 to 2100 and a term index from 0 to 23, \<open>__getTerm\<close>,
  computed in double precision and rounded to microseconds, returns the day of the month
  (UTC) of the instant 1890-01-05T16:02:31Z plus \<open>31556925974.7 * (y - 1890)\<close> plus
  \<open>termInfo[n] * 60000\<close> milliseconds.
\<close>

theorem getTerm_is_spec:
  assumes "1890 \<le> y" and "y \<le> 2100" and "0 \<le> n" and "n < 24"
  shows "getTerm y n = Inr (getTermSpec y n)"
  using getTerm_exact [OF assms] by (simp only: getTermSpec_ordinal)

section \<open>Solar terms: each term falls in its month\<close>

definition monthStart0 :: "int \<Rightarrow> int" where
  "monthStart0 m = [0, 31, 59, 90, 120, 151, 181, 212, 243, 273, 304, 334, 365] ! nat (m - 1)"

definition termWindowOk :: "nat \<Rightarrow> bool" where
  "termWindowOk n \<longleftrightarrow>
     monthStart0 (int (n div 2) + 1) + 1 < (4130056870 + termInfo ! n * 600000) div 864000000 \<and>
     (6119367217 + termInfo ! n * 600000) div 864000000 \<le> monthStart0 (int (n div 2) + 2)"

definition termIndices :: "nat list" where
  "termIndices = [0, 1, 2, 3, 4, 5, 6, 7, 8, 9, 10, 11, 12, 13, 14, 15, 16, 17, 18, 19,
                  20, 21, 22, 23]"

lemma termWindows: "list_all termWindowOk termIndices"
  by (simp add: termIndices_def termWindowOk_def monthStart0_def termInfo_def)


lemma century_divs:
  assumes "1890 \<le> (y::int)" and "y \<le> 2100"
  shows "(y - 1) div 100 - (y - 1) div 400 = (if y \<le> 1900 then 14 else 15)"
proof -
  consider "y \<le> 1900" | "1901 \<le> y" "y \<le> 2000" | "2001 \<le> y"
    by linarith
  then show ?thesis
  proof cases
    case 1
    have "(y - 1) div 100 = 18"
      using assms 1 by (intro int_div_pos_eq [of _ _ _ "y - 1801"]) auto
    moreover have "(y - 1) div 400 = 4"
      using assms 1 by (intro int_div_pos_eq [of _ _ _ "y - 1601"]) auto
    ultimately show ?thesis using 1 by simp
  next
    case 2
    have "(y - 1) div 100 = 19"
      using 2 by (intro int_div_pos_eq [of _ _ _ "y - 1901"]) auto
    moreover have "(y - 1) div 400 = 4"
      using 2 by (intro int_div_pos_eq [of _ _ _ "y - 1601"]) auto
    ultimately show ?thesis using 2 by simp
  next
    case 3
    have "(y - 1) div 100 = 20"
      using assms 3 by (intro int_div_pos_eq [of _ _ _ "y - 2001"]) auto
    moreover have "(y - 1) div 400 = 5"
      using assms 3 by (intro int_div_pos_eq [of _ _ _ "y - 2001"]) auto
    ultimately show ?thesis using 3 by simp
  qed
qed

lemma yearStart_bounds:
  assumes "1890 \<le> y" and "y \<le> 2100"
  shows "4130056870 \<le> termTicks y 0 - 864000000 * days_before_year y"
    and "termTicks y 0 - 864000000 * days_before_year y \<le> 6119367217"
proof -
  define q where "q = (y - 1) div 4"
  define h where "h = (y - 1) div 100 - (y - 1) div 400"
  have q: "4 * q \<le> y - 1" "y - 1 \<le> 4 * q + 3"
    unfolding q_def by (simp_all add: algebra_simps)
  have h: "h = (if y \<le> 1900 then 14 else 15)"
    unfolding h_def using assms by (rule century_divs)
  have F: "days_before_year y = (y - 1) * 365 + q - h"
    by (simp add: days_before_year_def q_def h_def Let_def)
  have T: "termTicks y 0 = 596115649510000 + 315569259747 * (y - 1890)"
    by (simp add: termTicks_def epoch_us_eq)
  show "4130056870 \<le> termTicks y 0 - 864000000 * days_before_year y"
    unfolding F T using q h assms by (cases "y \<le> 1900") simp_all
  show "termTicks y 0 - 864000000 * days_before_year y \<le> 6119367217"
    unfolding F T using q h assms by (cases "y \<le> 1900") simp_all
qed

lemma termOrdinal_window:
  assumes "1890 \<le> y" and "y \<le> 2100"
  shows "days_before_year y + (4130056870 + t * 600000) div 864000000 \<le> termOrdinal y t"
    and "termOrdinal y t \<le> days_before_year y + (6119367217 + t * 600000) div 864000000"
proof -
  define b where "b = termTicks y 0 - 864000000 * days_before_year y"
  have tt: "termTicks y t = b + t * 600000 + days_before_year y * 864000000"
    by (simp add: b_def termTicks_def)
  have o: "termOrdinal y t = days_before_year y + (b + t * 600000) div 864000000"
    unfolding termOrdinal_def tt by simp
  note bb = yearStart_bounds [OF assms, folded b_def]
  have "(4130056870 + t * 600000) div 864000000 \<le> (b + t * 600000) div 864000000"
    using bb(1) by (intro zdiv_mono1) simp_all
  then show "days_before_year y + (4130056870 + t * 600000) div 864000000 \<le> termOrdinal y t"
    by (simp add: o)
  have "(b + t * 600000) div 864000000 \<le> (6119367217 + t * 600000) div 864000000"
    using bb(2) by (intro zdiv_mono1) simp_all
  then show "termOrdinal y t \<le> days_before_year y + (6119367217 + t * 600000) div 864000000"
    by (simp add: o)
qed


lemma days_before_month_table:
  assumes "1 \<le> m" and "m \<le> 13"
  shows "days_before_month y m = monthStart0 m + (if 2 < m \<and> isLeapYear y then 1 else 0)"
proof -
  from assms have "m = 1 \<or> m = 2 \<or> m = 3 \<or> m = 4 \<or> m = 5 \<or> m = 6 \<or> m = 7 \<or> m = 8 \<or>
    m = 9 \<or> m = 10 \<or> m = 11 \<or> m = 12 \<or> m = 13" by arith
  then show ?thesis
    by (elim disjE) (simp_all add: days_before_month_rec days_in_month_def monthStart0_def)
qed

lemma fromordinal_in_month:
  assumes "1 \<le> y" and "y \<le> 9999" and "1 \<le> m" and "m \<le> 12"
    and "days_before_year y + days_before_month y m < K"
    and "K \<le> days_before_year y + days_before_month y (m + 1)"
  shows "fromordinal K
           = \<lparr>dyear = y, dmonth = m, dday = K - days_before_year y - days_before_month y m\<rparr>"
proof -
  let ?d = "K - days_before_year y - days_before_month y m"
  have "valid_date y m ?d"
    using assms days_before_month_next [of m y] by (simp add: valid_date_def)
  from fromordinal_toordinal [OF this] show ?thesis
    by (simp add: toordinal_def)
qed

lemma termIndices_set: "n < 24 \<Longrightarrow> n \<in> set termIndices"
  unfolding termIndices_def by (simp add: less_Suc_eq numeral_eq_Suc)

lemma term_in_month:
  assumes y: "1890 \<le> y" "y \<le> 2100" and n: "n < 24"
  shows "days_before_year y + days_before_month y (int (n div 2) + 1)
           < termOrdinal y (termInfo ! n)"
    and "termOrdinal y (termInfo ! n)
           \<le> days_before_year y + days_before_month y (int (n div 2) + 1 + 1)"
proof -
  let ?m = "int (n div 2) + 1"
  let ?t = "termInfo ! n"
  have w: "termWindowOk n"
    using termWindows termIndices_set [OF n] unfolding list_all_iff by blast
  have m: "1 \<le> ?m" "?m \<le> 12" using n by simp_all
  have a: "days_before_month y ?m \<le> monthStart0 ?m + 1"
    using days_before_month_table [of ?m y] m by simp
  have b: "monthStart0 (?m + 1) \<le> days_before_month y (?m + 1)"
    using days_before_month_table [of "?m + 1" y] m by simp
  from w have w1: "monthStart0 ?m + 1 < (4130056870 + ?t * 600000) div 864000000"
    and w2: "(6119367217 + ?t * 600000) div 864000000 \<le> monthStart0 (?m + 1)"
    by (simp_all add: termWindowOk_def add.assoc)
  show "days_before_year y + days_before_month y ?m < termOrdinal y ?t"
    using termOrdinal_window(1) [OF y, of ?t] a w1 by linarith
  show "termOrdinal y ?t \<le> days_before_year y + days_before_month y (?m + 1)"
    using termOrdinal_window(2) [OF y, of ?t] b w2 by linarith
qed

lemma getTermSpec_day:
  assumes y: "1890 \<le> y" "y \<le> 2100" and n: "n < 24"
  shows "getTermSpec y (int n)
           = termOrdinal y (termInfo ! n) - days_before_year y
               - days_before_month y (int (n div 2) + 1)"
proof -
  have "fromordinal (termOrdinal y (termInfo ! n))
          = \<lparr>dyear = y, dmonth = int (n div 2) + 1,
             dday = termOrdinal y (termInfo ! n) - days_before_year y
                      - days_before_month y (int (n div 2) + 1)\<rparr>"
    using y n term_in_month [OF y n] by (intro fromordinal_in_month) simp_all
  then show ?thesis by (simp add: getTermSpec_ordinal)
qed

lemmas date_eval = fromordinal_def find_year.simps find_month.simps days_before_year_def
  days_before_month_rec days_in_month_def isLeapYear_def toordinal_def Let_def

lemmas term_eval = getTermSpec_ordinal termOrdinal_def termTicks_def epoch_us_eq termInfo_def

theorem getTerm_is_spec_witness:
  "(1890::int) \<le> 2023 \<and> (2023::int) \<le> 2100 \<and> (0::int) \<le> 2 \<and> (2::int) < 24 \<and>
   getTerm 2023 2 = Inr (getTermSpec 2023 2) \<and> getTermSpec 2023 2 = 4"
proof -
  have "getTermSpec 2023 2 = 4"
    by (simp add: term_eval date_eval)
  with getTerm_is_spec [of 2023 2] show ?thesis by simp
qed

lemma getTerm_supported:
  assumes "1890 \<le> y" and "y \<le> 2100" and "0 \<le> n" and "n < 24"
  shows "getTerm y n = Inr (getTermSpec y n)"
  using getTerm_exact [OF assms] by (simp only: getTermSpec_ordinal)

section \<open>Solar terms in calendar order\<close>

text \<open>Solar dates inside one year, as pairs of a month index and a day, in calendar order.\<close>

definition dateLe :: "int \<times> int \<Rightarrow> int \<times> int \<Rightarrow> bool" where
  "dateLe a b \<longleftrightarrow> fst a < fst b \<or> (fst a = fst b \<and> snd a \<le> snd b)"

lemma sorted_termInfo: "sorted termInfo"
  by (simp add: termInfo_def)

lemma termOrdinal_mono: "s \<le> t \<Longrightarrow> termOrdinal y s \<le> termOrdinal y t"
  unfolding termOrdinal_def termTicks_def by (intro zdiv_mono1) simp_all

text \<open>
  Claim C8. For a year from 1890 to 2100 and term indices \<open>i \<le> j\<close> below 24, the date of
  term \<open>i\<close> (month index \<open>i div 2\<close>, day \<open>__getTerm(year, i)\<close>) is not after the date of
  term \<open>j\<close>.
\<close>

theorem term_dates_nondecreasing:
  assumes "1890 \<le> y" and "y \<le> 2100" and "i \<le> j" and "j < 24"
  shows "\<exists>di dj. getTerm y (int i) = Inr di \<and> getTerm y (int j) = Inr dj \<and>
           dateLe (int (i div 2), di) (int (j div 2), dj)"
proof -
  have i: "i < 24" using assms by simp
  have gi: "getTerm y (int i) = Inr (getTermSpec y (int i))"
    using assms i by (intro getTerm_supported) simp_all
  have gj: "getTerm y (int j) = Inr (getTermSpec y (int j))"
    using assms by (intro getTerm_supported) simp_all
  have "dateLe (int (i div 2), getTermSpec y (int i)) (int (j div 2), getTermSpec y (int j))"
  proof (cases "i div 2 = j div 2")
    case True
    have "termInfo ! i \<le> termInfo ! j"
      using sorted_termInfo assms by (intro sorted_nth_mono) (simp_all add: termInfo_def)
    then have "termOrdinal y (termInfo ! i) \<le> termOrdinal y (termInfo ! j)"
      by (rule termOrdinal_mono)
    then show ?thesis
      using True getTermSpec_day [OF assms(1,2) i] getTermSpec_day [OF assms(1,2,4)]
      by (simp add: dateLe_def)
  next
    case False
    moreover have "i div 2 \<le> j div 2" using assms(3) by (rule div_le_mono)
    ultimately show ?thesis by (simp add: dateLe_def)
  qed
  with gi gj show ?thesis by blast
qed

theorem term_dates_nondecreasing_witness:
  "(1890::int) \<le> 2023 \<and> (2023::int) \<le> 2100 \<and> (2::nat) \<le> 3 \<and> (3::nat) < 24 \<and>
   (\<exists>di dj. getTerm 2023 (int 2) = Inr di \<and> getTerm 2023 (int 3) = Inr dj \<and>
      dateLe (int (2 div 2), di) (int (3 div 2), dj))"
  using term_dates_nondecreasing [of 2023 2 3] by simp

section \<open>The term dictionary of a year and the start of spring\<close>

lemma upt_24: "[0..<24] = termIndices"
  unfolding termIndices_def by (simp add: upt_rec)

lemma last_digits: "last (digits n) = digit_char (n mod 10)"
  by (subst digits.simps) simp

lemma digits_nonempty: "digits n \<noteq> []"
  by (subst digits.simps) simp

lemma int_of_digit_char: "n < 10 \<Longrightarrow> int_of_char (digit_char n) = Inr (int n)"
proof -
  assume "n < 10"
  then have "n \<in> {0, 1, 2, 3, 4, 5, 6, 7, 8, 9}"
    by auto
  then show ?thesis
    by (auto simp add: digit_char_def int_of_char_def)
qed

lemma py_nth_last: "xs \<noteq> [] \<Longrightarrow> py_nth xs (- 1) = Inr (last xs)"
  by (cases xs rule: rev_cases) (auto simp add: py_nth_def nth_append)

lemma formatDayD4_last:
  assumes "0 \<le> day"
  shows "bindE (py_nth (formatDayD4 month day) (- 1)) int_of_char = Inr (day mod 10)"
proof -
  define ds where "ds = (if day < 10 then ''0'' @ str_int day else str_int day)"
  have ne: "str_int day \<noteq> []" using assms by (simp add: str_int_def digits_nonempty)
  then have "last ds = last (str_int day)" by (simp add: ds_def)
  also have "\<dots> = digit_char (nat day mod 10)"
    using assms by (simp add: str_int_def last_digits)
  finally have l: "last ds = digit_char (nat day mod 10)" .
  have "ds \<noteq> []" using ne by (simp add: ds_def)
  then have "last (formatDayD4 month day) = last ds" and "formatDayD4 month day \<noteq> []"
    by (simp_all add: formatDayD4_def Let_def ds_def)
  then have "py_nth (formatDayD4 month day) (- 1) = Inr (digit_char (nat day mod 10))"
    using l by (simp add: py_nth_last)
  moreover have "int (nat day mod 10) = day mod 10"
    using assms by (simp add: nat_mod_as_int)
  ultimately show ?thesis
    using int_of_digit_char [of "nat day mod 10"] by simp
qed


definition dayStr :: "int \<Rightarrow> string" where
  "dayStr day = (if day < 10 then ''0'' @ str_int day else str_int day)"

lemma formatDayD4_dayStr:
  "formatDayD4 month day =
     ''d'' @ (if month + 1 < 10 then ''0'' @ str_int (month + 1) else str_int (month + 1))
       @ dayStr day"
  by (simp add: formatDayD4_def dayStr_def Let_def)

definition termKeys :: "int \<Rightarrow> termList" where
  "termKeys y = map (\<lambda>j. (formatDayD4 (int j) (getTermSpec y (int (2 * j))), solarTerm ! (2 * j)))
                  [0, 1, 2, 3, 4, 5, 6, 7, 8, 9, 10, 11]"

lemma getYearTerm_supported:
  assumes "1890 \<le> y" and "y \<le> 2100"
  shows "getYearTerm y = Inr (termKeys y)"
  unfolding getYearTerm_def upt_24 termIndices_def termKeys_def
  using assms
  by (simp add: getTerm_supported solarTerm_def py_nth_def formatDayD4_dayStr str_int_def
      digits.simps digit_char_def)


lemma term2_of_termKeys:
  "term2_of (termKeys y) = bindE (py_nth (formatDayD4 1 (getTermSpec y 2)) (- 1)) int_of_char"
proof -
  have "map fst (filter (\<lambda>kv. snd kv = liChun) (termKeys y)) = [formatDayD4 1 (getTermSpec y 2)]"
    by (simp add: termKeys_def solarTerm_def liChun_def)
  then show ?thesis
    by (simp add: term2_of_def py_nth_def)
qed

lemma spring_day:
  assumes "1890 \<le> y" and "y \<le> 2100"
  shows "3 \<le> getTermSpec y 2" and "getTermSpec y 2 \<le> 5"
proof -
  have n: "(2::nat) < 24" by simp
  have d: "getTermSpec y 2 = termOrdinal y 42467 - days_before_year y - 31"
    using getTermSpec_day [OF assms n] by (simp add: termInfo_def days_before_month_rec days_in_month_def)
  show "3 \<le> getTermSpec y 2"
    using termOrdinal_window(1) [OF assms, of 42467] by (simp add: d)
  show "getTermSpec y 2 \<le> 5"
    using termOrdinal_window(2) [OF assms, of 42467] by (simp add: d)
qed

text \<open>
  Claim C10. Reading a day back from a key of the term dictionary, as \<open>int(key[-1])\<close>
  does, gives the last decimal digit of the day: for every month and every day \<open>e\<close> from
  0 on, the value read from \<open>__formatDayD4(month, e)\<close> is \<open>e mod 10\<close>, and it is \<open>e\<close>
  itself exactly when \<open>e\<close> is below 10. For a year from 1890 to 2100, with \<open>d\<close> the day
  \<open>__getTerm(year, 2)\<close> of the start of spring: the value \<open>int(term2[-1])\<close> that
  \<open>solarToLunar\<close> reads from the year's term dictionary is \<open>d mod 10\<close>; \<open>d\<close> lies between
  3 and 5, so it is below 10, and the value read is the day \<open>d\<close> itself.
\<close>

theorem cutover_day_parse:
  assumes "1890 \<le> y" and "y \<le> 2100"
  shows "(\<forall>month e. 0 \<le> e \<longrightarrow>
            bindE (py_nth (formatDayD4 month e) (- 1)) int_of_char = Inr (e mod 10) \<and>
            (bindE (py_nth (formatDayD4 month e) (- 1)) int_of_char = Inr e \<longleftrightarrow> e < 10)) \<and>
         (\<exists>termList d. getYearTerm y = Inr termList \<and> getTerm y 2 = Inr d \<and>
            term2_of termList = Inr (d mod 10) \<and>
            (d mod 10 = d \<longleftrightarrow> d < 10) \<and>
            3 \<le> d \<and> d \<le> 5 \<and> d < 10 \<and>
            term2_of termList = Inr d)"
proof (intro conjI allI impI)
  fix month e :: int
  assume e: "0 \<le> e"
  then show p: "bindE (py_nth (formatDayD4 month e) (- 1)) int_of_char = Inr (e mod 10)"
    by (rule formatDayD4_last)
  have "e mod 10 = e \<longleftrightarrow> e < 10"
    using e by (auto simp add: mod_pos_pos_trivial)
  then show "bindE (py_nth (formatDayD4 month e) (- 1)) int_of_char = Inr e \<longleftrightarrow> e < 10"
    by (simp add: p)
next
  let ?d = "getTermSpec y 2"
  note sd = spring_day [OF assms]
  have a: "getTerm y 2 = Inr ?d"
    using assms by (intro getTerm_supported) simp_all
  have m: "?d mod 10 = ?d"
    using sd by (simp add: mod_pos_pos_trivial)
  have b: "term2_of (termKeys y) = Inr (?d mod 10)"
    using sd by (simp add: term2_of_termKeys formatDayD4_last)
  have c: "term2_of (termKeys y) = Inr ?d"
    using b by (simp only: m)
  have "getYearTerm y = Inr (termKeys y) \<and> getTerm y 2 = Inr ?d \<and>
        term2_of (termKeys y) = Inr (?d mod 10) \<and> (?d mod 10 = ?d \<longleftrightarrow> ?d < 10) \<and>
        3 \<le> ?d \<and> ?d \<le> 5 \<and> ?d < 10 \<and> term2_of (termKeys y) = Inr ?d"
    using getYearTerm_supported [OF assms] a b c m sd by simp
  then show "\<exists>termList d. getYearTerm y = Inr termList \<and> getTerm y 2 = Inr d \<and>
            term2_of termList = Inr (d mod 10) \<and>
            (d mod 10 = d \<longleftrightarrow> d < 10) \<and>
            3 \<le> d \<and> d \<le> 5 \<and> d < 10 \<and>
            term2_of termList = Inr d"
    by blast
qed

theorem cutover_day_parse_witness:
  "(1890::int) \<le> 2023 \<and> (2023::int) \<le> 2100 \<and>
   bindE (py_nth (formatDayD4 1 4) (- 1)) int_of_char = Inr 4 \<and>
   bindE (py_nth (formatDayD4 1 14) (- 1)) int_of_char = Inr 4 \<and>
   (\<exists>termList. getYearTerm 2023 = Inr termList \<and> getTerm 2023 2 = Inr 4 \<and>
      term2_of termList = Inr 4)"
proof -
  note t = cutover_day_parse [of 2023]
  have a: "bindE (py_nth (formatDayD4 1 4) (- 1)) int_of_char = Inr 4"
    using t [THEN conjunct1, rule_format, of 4 1] by simp
  have b: "bindE (py_nth (formatDayD4 1 14) (- 1)) int_of_char = Inr 4"
    using t [THEN conjunct1, rule_format, of 14 1] by simp
  have g: "getTerm 2023 2 = Inr 4"
    using getTerm_supported [of 2023 2] by (simp add: term_eval date_eval)
  from t [THEN conjunct2] g a b show ?thesis
    by auto
qed

section \<open>Day numbers and back, the other way round\<close>

lemma find_year_spec:
  "days_before_year y0 < n \<Longrightarrow>
   days_before_year (find_year n y0) < n \<and> n \<le> days_before_year (find_year n y0 + 1)"
proof (induction n y0 rule: find_year.induct)
  case (1 n y)
  show ?case
  proof (cases "days_before_year (y + 1) < n")
    case True
    with 1 show ?thesis by (subst (1 2) find_year.simps) simp
  next
    case False
    with 1 show ?thesis by (subst (1 2) find_year.simps) simp
  qed
qed

lemma find_month_spec:
  "1 \<le> m0 \<Longrightarrow> m0 \<le> 12 \<Longrightarrow> 1 \<le> r \<Longrightarrow>
   r \<le> days_before_month y 13 - days_before_month y m0 \<Longrightarrow>
   (case find_month y m0 r of (m, d) \<Rightarrow>
      m0 \<le> m \<and> m \<le> 12 \<and> 1 \<le> d \<and> d \<le> days_in_month y m \<and>
      days_before_month y m + d = days_before_month y m0 + r)"
proof (induction y m0 r rule: find_month.induct)
  case (1 y m r)
  show ?case
  proof (cases "m < 12 \<and> days_in_month y m < r")
    case True
    have "case find_month y (m + 1) (r - days_in_month y m) of (m', d) \<Rightarrow>
        m + 1 \<le> m' \<and> m' \<le> 12 \<and> 1 \<le> d \<and> d \<le> days_in_month y m' \<and>
        days_before_month y m' + d = days_before_month y (m + 1) + (r - days_in_month y m)"
      using True 1 days_before_month_next [of m y] by (intro "1.IH") auto
    then show ?thesis
      using True 1 days_before_month_next [of m y]
      by (subst find_month.simps) (auto split: prod.splits)
  next
    case False
    have "r \<le> days_in_month y m"
    proof (cases "m < 12")
      case True
      with False show ?thesis by simp
    next
      case False
      with 1 have "m = 12" by simp
      with 1 show ?thesis using days_before_month_next [of 12 y] by simp
    qed
    with False 1 show ?thesis by (subst find_month.simps) auto
  qed
qed

lemma toordinal_fromordinal:
  assumes "1 \<le> n"
  shows "toordinal (fromordinal n) = n"
proof -
  define y0 where "y0 = (n - 1) div 366 + 1"
  define y where "y = find_year n y0"
  have y0: "1 \<le> y0" using assms by (simp add: y0_def pos_imp_zdiv_nonneg_iff)
  have "366 * ((n - 1) div 366) \<le> n - 1"
    by (simp add: algebra_simps)
  then have "days_before_year y0 < n"
    using days_before_year_le [OF y0] by (simp add: y0_def)
  from find_year_spec [OF this] have yb: "days_before_year y < n" "n \<le> days_before_year (y + 1)"
    by (simp_all add: y_def)
  define r where "r = n - days_before_year y"
  have r: "1 \<le> r" "r \<le> days_before_month y 13 - days_before_month y 1"
    using yb by (simp_all add: r_def days_before_year_next days_before_month_13
        days_before_month_rec [of y 1])
  obtain m d where md: "find_month y 1 r = (m, d)" by (cases "find_month y 1 r")
  from find_month_spec [of 1 r y] r md
  have "days_before_month y m + d = days_before_month y 1 + r" by simp
  then have "days_before_month y m + d = r"
    by (simp add: days_before_month_rec [of y 1])
  then show ?thesis
    unfolding fromordinal_def Let_def y0_def [symmetric] y_def [symmetric] r_def [symmetric] md
    by (simp add: toordinal_def r_def)
qed

section \<open>Running the conversion\<close>

text \<open>
  The row a year's lookups read: for a table of 211 rows and a lunar year from 1889 to
  2100 the index \<open>year - 1890\<close> runs from \<open>-1\<close> to 210, and Python's index \<open>-1\<close> is the
  last row.
\<close>

lemma valid_date_c_int:
  assumes "valid_date y m d"
  shows "c_int y" and "c_int m" and "c_int d"
proof -
  have "days_in_month y m \<le> 31"
    by (simp add: days_in_month_def)
  with assms show "c_int y" and "c_int m" and "c_int d"
    by (simp_all add: valid_date_def c_int_def)
qed

lemma mk_date_valid:
  "valid_date y m d \<Longrightarrow> mk_date y m d = Inr \<lparr>dyear = y, dmonth = m, dday = d\<rparr>"
  using valid_date_c_int [of y m d] by (simp add: mk_date_def)

lemma mk_date_invalid:
  "\<not> valid_date y m d \<Longrightarrow> c_int y \<Longrightarrow> c_int m \<Longrightarrow>
   mk_date y m d = Inl (if c_int d then ValueError else OverflowError)"
  by (simp add: mk_date_def)

definition rowAt :: "yearData list \<Rightarrow> int \<Rightarrow> yearData" where
  "rowAt tbl year = tbl ! nat ((year - minYear) mod 211)"

definition epochOrd :: "int \<Rightarrow> yearData \<Rightarrow> int" where
  "epochOrd y r = toordinal \<lparr>dyear = y, dmonth = zenMonth r, dday = zenDay r\<rparr>"

definition rowOk :: "int \<Rightarrow> yearData \<Rightarrow> bool" where
  "rowOk y r \<longleftrightarrow> valid_date y (zenMonth r) (zenDay r)"

definition leapOk :: "yearData \<Rightarrow> bool" where
  "leapOk r \<longleftrightarrow> 0 \<le> leapMonth r \<and> leapMonth r \<le> 12"

text \<open>The lunar date \<open>__getLunarByBetween\<close> returns when nothing raises.\<close>

definition lunarOf :: "yearData list \<Rightarrow> int \<Rightarrow> int \<Rightarrow> int \<Rightarrow> lunarDate" where
  "lunarOf tbl year month day =
     (let between = toordinal \<lparr>dyear = year, dmonth = month + 1, dday = day\<rparr>
                      - epochOrd year (rowAt tbl year);
          ly = (if between > 0 then year else year - 1)
      in if between = 0 then \<lparr>lyear = year, lmonth = 0, lday = 1\<rparr>
         else lunarDateIn (decodeYear (rowAt tbl ly)) ly between)"

lemma lunarInfoAt_rowAt:
  assumes "length tbl = 211" and "1889 \<le> year" and "year \<le> 2100"
  shows "lunarInfoAt tbl year = Inr (rowAt tbl year)"
proof (cases "year = 1889")
  case True
  then show ?thesis using assms by (simp add: lunarInfoAt_def py_nth_def rowAt_def minYear_def)
next
  case False
  with assms have "(year - 1890) mod 211 = year - 1890"
    by (intro mod_pos_pos_trivial) auto
  with False assms show ?thesis
    by (simp add: lunarInfoAt_def py_nth_def rowAt_def minYear_def)
qed

lemma getLunarByBetween_run:
  assumes len: "length tbl = 211" and y: "1890 \<le> year" "year \<le> 2100"
    and d: "valid_date year (month + 1) day" and r: "rowOk year (rowAt tbl year)"
  shows "getLunarByBetween tbl year month day = Inr (lunarOf tbl year month day)"
proof -
  let ?yd = "rowAt tbl year"
  let ?between = "toordinal \<lparr>dyear = year, dmonth = month + 1, dday = day\<rparr> - epochOrd year ?yd"
  let ?ly = "if ?between > 0 then year else year - 1"
  have a: "lunarInfoAt tbl year = Inr ?yd"
    using len y by (intro lunarInfoAt_rowAt) auto
  have b: "getDaysBetweenSolar year (zenMonth ?yd - 1) (zenDay ?yd) year month day = Inr ?between"
    using d r by (simp add: getDaysBetweenSolar_def mk_date_valid rowOk_def date_diff_days_def
        epochOrd_def)
  have c: "lunarInfoAt tbl ?ly = Inr (rowAt tbl ?ly)"
    using len y by (intro lunarInfoAt_rowAt) auto
  have e: "getLunarByBetween tbl year month day =
      (if ?between = 0 then Inr \<lparr>lyear = year, lmonth = 0, lday = 1\<rparr>
       else getLunarDateByBetween tbl ?ly ?between)"
    by (simp only: getLunarByBetween_def a b bindE_Inr)
  have f: "getLunarDateByBetween tbl ?ly ?between
             = Inr (lunarDateIn (decodeYear (rowAt tbl ?ly)) ?ly ?between)"
    by (simp only: getLunarDateByBetween_def getLunarYearDays_def c sum.case bindE_Inr)
  show ?thesis
    unfolding e f lunarOf_def Let_def by simp
qed

lemma betweenLoop_cases:
  assumes "betweenLoop mds i t en = (mo, tmp)"
  shows "(\<exists>j < length mds. mo = i + int j \<and> tmp = t + sum_list (take j mds) \<and>
            en < tmp + mds ! j \<and> (0 < j \<longrightarrow> tmp \<le> en)) \<or>
         (mo = 0 \<and> tmp = t + sum_list mds \<and> tmp \<le> en \<or> mds = [] \<and> mo = 0 \<and> tmp = t)"
  using assms
proof (induction mds arbitrary: i t)
  case Nil
  then show ?case by simp
next
  case (Cons md mds)
  show ?case
  proof (cases "t + md > en")
    case True
    with Cons.prems have "mo = i" "tmp = t" by simp_all
    with True show ?thesis by (intro disjI1 exI [of _ 0]) simp
  next
    case False
    with Cons.prems have "betweenLoop mds (i + 1) (t + md) en = (mo, tmp)" by simp
    from Cons.IH [OF this] show ?thesis
    proof (elim disjE exE conjE)
      fix j
      assume j: "j < length mds" "mo = i + 1 + int j" "tmp = t + md + sum_list (take j mds)"
        "en < tmp + mds ! j" "0 < j \<longrightarrow> tmp \<le> en"
      have "tmp \<le> en"
        using j False by (cases j) simp_all
      with j show ?thesis by (intro disjI1 exI [of _ "Suc j"]) simp
    next
      assume "mo = 0" "tmp = t + md + sum_list mds" "tmp \<le> en"
      then show ?thesis by simp
    next
      assume "mds = []" "mo = 0" "tmp = t + md"
      with False show ?thesis by simp
    qed
  qed
qed

lemma sum_list_bounds:
  assumes "\<forall>x \<in> set xs. a \<le> x \<and> x \<le> (b::int)"
  shows "a * int (length xs) \<le> sum_list xs" and "sum_list xs \<le> b * int (length xs)"
  using assms by (induction xs) (auto simp add: algebra_simps)

lemma decodeYear_yearDays_bounds:
  "348 \<le> yearDays (decodeYear r)" and "yearDays (decodeYear r) \<le> 390"
proof -
  have e: "\<forall>x \<in> set (monthDays (decodeYear r)). 29 \<le> x \<and> x \<le> 30"
    using decodeYear_entries by fastforce
  show "348 \<le> yearDays (decodeYear r)"
    using sum_list_bounds(1) [OF e]
    by (simp add: decodeYear_yearDays decodeYear_length split: if_splits)
  show "yearDays (decodeYear r) \<le> 390"
    using sum_list_bounds(2) [OF e]
    by (simp add: decodeYear_yearDays decodeYear_length split: if_splits)
qed

lemma lunarDateIn_range:
  assumes b: "\<bar>between\<bar> \<le> 365"
  shows "0 \<le> lmonth (lunarDateIn (decodeYear r) ly between)"
    and "lmonth (lunarDateIn (decodeYear r) ly between) \<le> (if leapMonth r = 0 then 11 else 12)"
    and "- 30 \<le> lday (lunarDateIn (decodeYear r) ly between)"
    and "lday (lunarDateIn (decodeYear r) ly between) \<le> 31"
proof -
  let ?lyd = "decodeYear r"
  let ?mds = "monthDays ?lyd"
  define en where "en = (if between > 0 then between else yearDays ?lyd + between)"
  obtain mo tmp where bl: "betweenLoop ?mds 0 0 en = (mo, tmp)"
    by (cases "betweenLoop ?mds 0 0 en")
  have ld: "lunarDateIn ?lyd ly between = \<lparr>lyear = ly, lmonth = mo, lday = en - tmp + 1\<rparr>"
    by (simp add: lunarDateIn_def en_def [symmetric] bl)
  have len: "int (length ?mds) = (if leapMonth r = 0 then 12 else 13)"
    by (simp add: decodeYear_length)
  have ent: "\<And>j. j < length ?mds \<Longrightarrow> 29 \<le> ?mds ! j \<and> ?mds ! j \<le> 30"
    using decodeYear_entries [of _ r] nth_mem by fastforce
  note yb = decodeYear_yearDays_bounds [of r]
  have enl: "- 17 \<le> en" and enu: "en \<le> 365 \<or> en \<le> yearDays ?lyd"
    using b yb by (auto simp add: en_def)
  have ne: "?mds \<noteq> []" using len by (auto split: if_splits)
  from betweenLoop_cases [OF bl] ne
  consider j where "j < length ?mds" "mo = int j" "tmp = sum_list (take j ?mds)"
      "en < tmp + ?mds ! j" "0 < j \<longrightarrow> tmp \<le> en"
    | "mo = 0" "tmp = sum_list ?mds" "tmp \<le> en"
    by auto
  then have "0 \<le> mo \<and> mo \<le> (if leapMonth r = 0 then 11 else 12) \<and>
             - 30 \<le> en - tmp + 1 \<and> en - tmp + 1 \<le> 31"
  proof cases
    case 1
    have "tmp \<le> en \<or> tmp = 0" using 1 by (cases j) auto
    then show ?thesis using 1 ent [of j] len enl by (auto split: if_splits)
  next
    case 2
    then have "tmp = yearDays ?lyd" by (simp add: decodeYear_yearDays)
    then show ?thesis using 2 enu yb by auto
  qed
  then show "0 \<le> lmonth (lunarDateIn (decodeYear r) ly between)"
    and "lmonth (lunarDateIn (decodeYear r) ly between) \<le> (if leapMonth r = 0 then 11 else 12)"
    and "- 30 \<le> lday (lunarDateIn (decodeYear r) ly between)"
    and "lday (lunarDateIn (decodeYear r) ly between) \<le> 31"
    by (simp_all add: ld)
qed

definition cyc :: "int \<Rightarrow> ustr" where
  "cyc num = heavenlyStems ! nat (num mod 10) @ earthlyBranches ! nat (num mod 12)"

lemma cyclical_run: "cyclical num = Inr (cyc num)"
  by (simp add: cyclical_def cyc_def py_nth_def heavenlyStems_def earthlyBranches_def)

lemma getYearZodiac_run: "getYearZodiac year = Inr (zodiacNames ! nat ((year - 1890 + 25) mod 12))"
  by (simp add: getYearZodiac_def py_nth_def zodiacNames_def)

lemma getLunarDayName_run:
  assumes "valid_date year (month + 1) day" and "year \<le> 2100"
  shows "getLunarDayName year month day
           = Inr (cyc (toordinal \<lparr>dyear = year, dmonth = month + 1, dday = day\<rparr> + 29237 - 719163))"
proof -
  let ?n = "toordinal \<lparr>dyear = year, dmonth = month + 1, dday = day\<rparr>"
  have y: "1 \<le> year" using assms by (simp add: valid_date_def)
  have lo: "1 \<le> ?n"
    using toordinal_bounds(1) [OF assms(1)] days_before_year_mono [of 1 year] y
    by (simp add: days_before_year_def)
  have "?n \<le> 366 * year"
    using toordinal_bounds(2) [OF assms(1)] days_before_year_le [of "year + 1"] y by simp
  then have hi: "?n + 29237 \<le> maxordinal" using assms(2) by (simp add: maxordinal_def)
  have a: "date_add_days \<lparr>dyear = year, dmonth = month + 1, dday = day\<rparr> 29237
             = Inr (fromordinal (?n + 29237))"
    using lo hi by (simp add: date_add_days_def Let_def)
  have b: "valid_date 1970 1 1"
    by (simp add: valid_date_def days_in_month_def)
  have c: "toordinal \<lparr>dyear = 1970, dmonth = 1, dday = 1\<rparr> = 719163"
    by (simp add: toordinal_def days_before_year_def days_before_month_rec)
  have d: "toordinal (fromordinal (?n + 29237)) = ?n + 29237"
    using lo by (intro toordinal_fromordinal) simp
  show ?thesis
    using assms(1)
    by (simp add: getLunarDayName_def mk_date_valid timedelta_days_def a b c d date_diff_days_def
        cyclical_run)
qed

text \<open>
  The cache of an instance holds, for a year, the dictionary \<open>__getYearTerm\<close> built for
  that year: nothing else ever writes to it.
\<close>

definition cacheOk :: "cache \<Rightarrow> bool" where
  "cacheOk cache \<longleftrightarrow> (\<forall>y termList. cache y = Some termList \<longrightarrow> getYearTerm y = Inr termList)"

lemma cacheOk_empty: "cacheOk Map.empty"
  by (simp add: cacheOk_def)

lemma solarToLunar_fst:
  assumes "cacheOk cache" and "1890 \<le> y" and "y \<le> 2100"
  shows "fst (solarToLunar tbl cache y m d)
           = bindE (solarToLunarBody tbl (termKeys y) \<lparr>year_of = y, month_of = m - 1, day_of = d\<rparr>)
               (\<lambda>r. Inr (Okay r))"
proof (cases "cache y")
  case None
  then show ?thesis
    using assms getYearTerm_supported [OF assms(2,3)]
    by (simp add: solarToLunar_def formatDate_def minYear_def maxYear_def)
next
  case (Some termList)
  then have "termList = termKeys y"
    using assms getYearTerm_supported [OF assms(2,3)] by (auto simp add: cacheOk_def)
  with Some show ?thesis
    using assms by (simp add: solarToLunar_def formatDate_def minYear_def maxYear_def)
qed

lemma solarToLunar_cacheOk:
  assumes "cacheOk cache"
  shows "cacheOk (snd (solarToLunar tbl cache y m d))"
  using assms
  by (auto simp add: solarToLunar_def cacheOk_def split: reply.splits option.splits sum.splits)

lemma term2_of_supported:
  assumes "1890 \<le> y" and "y \<le> 2100"
  shows "term2_of (termKeys y) = Inr (getTermSpec y 2)"
proof -
  note sd = spring_day [OF assms]
  then have "getTermSpec y 2 mod 10 = getTermSpec y 2" by (intro mod_pos_pos_trivial) auto
  then show ?thesis using sd by (simp add: term2_of_termKeys formatDayD4_last)
qed

lemma lunarMonthNameOf_run:
  assumes "0 \<le> leap" and "leap \<le> 12" and "0 \<le> lm" and "lm \<le> (if leap = 0 then 11 else 12)"
  shows "\<exists>nm. lunarMonthNameOf leap lm = Inr nm"
proof -
  have a: "0 \<le> i \<Longrightarrow> i \<le> 11 \<Longrightarrow> \<exists>nm. py_nth monthCn i = Inr nm" for i
    by (simp add: py_nth_def monthCn_def)
  consider "leap > 0 \<and> leap = lm" | "\<not> (leap > 0 \<and> leap = lm)" "leap > 0 \<and> lm > leap"
    | "\<not> (leap > 0 \<and> leap = lm)" "\<not> (leap > 0 \<and> lm > leap)" by blast
  then show ?thesis
  proof cases
    case 1
    then obtain nm where "py_nth monthCn (lm - 1) = Inr nm" using a [of "lm - 1"] assms by auto
    with 1 show ?thesis by (simp add: lunarMonthNameOf_def)
  next
    case 2
    then obtain nm where "py_nth monthCn (lm - 1) = Inr nm"
      using a [of "lm - 1"] assms by (auto split: if_splits)
    with 2 show ?thesis by (simp add: lunarMonthNameOf_def)
  next
    case 3
    then have "lm \<le> 11" using assms by (auto split: if_splits)
    then obtain nm where "py_nth monthCn lm = Inr nm" using a [of lm] assms by auto
    with 3 show ?thesis by (auto simp add: lunarMonthNameOf_def)
  qed
qed

lemma dateCn_run:
  assumes "- 30 \<le> ld" and "ld \<le> 31"
  shows "\<exists>nm. py_nth dateCn (ld - 1) = Inr nm"
  using assms by (simp add: py_nth_def dateCn_def)

lemma same_year_between:
  assumes "valid_date y m d" and "valid_date y m' d'"
  shows "\<bar>toordinal \<lparr>dyear = y, dmonth = m, dday = d\<rparr>
           - toordinal \<lparr>dyear = y, dmonth = m', dday = d'\<rparr>\<bar> \<le> 365"
  using toordinal_bounds [OF assms(1)] toordinal_bounds [OF assms(2)]
    days_before_year_next [of y]
  by (auto split: if_splits)

lemma lunarOf_year:
  "lyear (lunarOf tbl y mo d)
     = (if toordinal \<lparr>dyear = y, dmonth = mo + 1, dday = d\<rparr> - epochOrd y (rowAt tbl y) \<ge> 0
        then y else y - 1)"
  by (simp add: lunarOf_def Let_def lunarDateIn_def split: prod.splits)


lemma lunarOf_range:
  assumes d: "valid_date y (mo + 1) d" and r: "rowOk y (rowAt tbl y)"
  shows "0 \<le> lmonth (lunarOf tbl y mo d)"
    and "lmonth (lunarOf tbl y mo d)
           \<le> (if leapMonth (rowAt tbl (lyear (lunarOf tbl y mo d))) = 0 then 11 else 12)"
    and "- 30 \<le> lday (lunarOf tbl y mo d)"
    and "lday (lunarOf tbl y mo d) \<le> 31"
proof -
  let ?b = "toordinal \<lparr>dyear = y, dmonth = mo + 1, dday = d\<rparr> - epochOrd y (rowAt tbl y)"
  let ?ly = "if ?b > 0 then y else y - 1"
  have b: "\<bar>?b\<bar> \<le> 365"
    unfolding epochOrd_def using d r [unfolded rowOk_def] by (rule same_year_between)
  have "0 \<le> lmonth (lunarOf tbl y mo d) \<and>
        lmonth (lunarOf tbl y mo d)
           \<le> (if leapMonth (rowAt tbl (lyear (lunarOf tbl y mo d))) = 0 then 11 else 12) \<and>
        - 30 \<le> lday (lunarOf tbl y mo d) \<and> lday (lunarOf tbl y mo d) \<le> 31"
  proof (cases "?b = 0")
    case True
    then show ?thesis by (simp add: lunarOf_def)
  next
    case False
    then have e: "lunarOf tbl y mo d = lunarDateIn (decodeYear (rowAt tbl ?ly)) ?ly ?b"
      by (simp add: lunarOf_def Let_def)
    have f: "lyear (lunarOf tbl y mo d) = ?ly"
      using False by (simp add: lunarOf_year)
    show ?thesis
      unfolding f unfolding e
      using lunarDateIn_range [OF b, of "rowAt tbl ?ly" ?ly] by simp
  qed
  then show "0 \<le> lmonth (lunarOf tbl y mo d)"
    and "lmonth (lunarOf tbl y mo d)
           \<le> (if leapMonth (rowAt tbl (lyear (lunarOf tbl y mo d))) = 0 then 11 else 12)"
    and "- 30 \<le> lday (lunarOf tbl y mo d)"
    and "lday (lunarOf tbl y mo d) \<le> 31"
    by simp_all
qed

lemma solarToLunarBody_run:
  assumes len: "length tbl = 211" and y: "1890 \<le> y" "y \<le> 2100" and d: "valid_date y m d"
    and r: "rowOk y (rowAt tbl y)"
    and l: "leapOk (rowAt tbl (lyear (lunarOf tbl y (m - 1) d)))"
  shows "\<exists>res. solarToLunarBody tbl (termKeys y) \<lparr>year_of = y, month_of = m - 1, day_of = d\<rparr>
               = Inr res \<and>
           r_lunarYear res = lyear (lunarOf tbl y (m - 1) d) \<and>
           r_lunarMonth res = lmonth (lunarOf tbl y (m - 1) d) + 1 \<and>
           r_lunarDay res = lday (lunarOf tbl y (m - 1) d) \<and>
           r_lunarLeapMonth res = leapMonth (rowAt tbl (lyear (lunarOf tbl y (m - 1) d))) \<and>
           r_zodiac res
             = zodiacNames ! nat ((cutoverYear y (m - 1) d (getTermSpec y 2) - 1890 + 25) mod 12) \<and>
           r_GanZhiYear res = cyc (cutoverYear y (m - 1) d (getTermSpec y 2) - 1890 + 25)"
proof -
  define ld where "ld = lunarOf tbl y (m - 1) d"
  define leap where "leap = leapMonth (rowAt tbl (lyear ld))"
  have d': "valid_date y (m - 1 + 1) d" using d by simp
  have m: "1 \<le> m" "m \<le> 12" using d by (simp_all add: valid_date_def)
  have t2: "term2_of (termKeys y) = Inr (getTermSpec y 2)"
    using y by (rule term2_of_supported)
  have ft: "getTerm y (m * 2 - 2) = Inr (getTermSpec y (m * 2 - 2))"
    using y m by (intro getTerm_supported) auto
  have lb: "getLunarByBetween tbl y (m - 1) d = Inr ld"
    unfolding ld_def using len y d' r by (rule getLunarByBetween_run)
  have ly: "1889 \<le> lyear ld" "lyear ld \<le> 2100"
    using y by (simp_all add: ld_def lunarOf_year)
  have ll: "getLunarLeapYear tbl (lyear ld) = Inr leap"
    using lunarInfoAt_rowAt [OF len ly] by (simp add: getLunarLeapYear_def leap_def)
  note rg = lunarOf_range [OF d' r, folded ld_def, folded leap_def]
  have lk: "0 \<le> leap" "leap \<le> 12"
    using l by (simp_all add: leapOk_def leap_def ld_def)
  obtain mn where mn: "lunarMonthNameOf leap (lmonth ld) = Inr mn"
    using lunarMonthNameOf_run [OF lk rg(1,2)] by blast
  obtain dn where dn: "py_nth dateCn (lday ld - 1) = Inr dn"
    using dateCn_run [OF rg(3,4)] by blast
  have gd: "getLunarDayName y (m - 1) d
      = Inr (cyc (toordinal \<lparr>dyear = y, dmonth = m - 1 + 1, dday = d\<rparr> + 29237 - 719163))"
    using d' y(2) by (rule getLunarDayName_run)
  show ?thesis
    unfolding solarToLunarBody_def Let_def ld_def [symmetric] leap_def [symmetric]
    by (simp add: t2 ft lb ll mn dn gd getYearZodiac_run getLunarYearName_def
        getLunarMonthName_def cyclical_run)
qed

section \<open>The year 1890 on the solar side\<close>

lemma sampleInfo_first: "sampleInfo ! 0 = row 2 1 21 22184"
  by (simp add: sampleInfo_def)

lemma sampleInfo_last: "sampleInfo ! 210 = row 0 2 9 54560"
  by (simp add: sampleInfo_def)

lemmas date_eval2 = valid_date_def toordinal_def days_before_year_def days_before_month_rec
  days_in_month_def isLeapYear_def Let_def

text \<open>
  Claim C9. \<open>solarToLunar\<close> accepts the year 1890. For a table of 211 rows whose first row
  holds a real date of 1890 as new year and whose last row has a leap month from 0 to 12,
  and a date of 1890 strictly before that new year: the lunar year is 1889, whose lookups
  use the index \<open>-1\<close> and so read the last row, the row of 2100; the call returns a result
  and no error; and the lunar year, month, day and leap month of the result are those
  computed from that last row.
\<close>

theorem wraparound_at_minYear:
  assumes "length tbl = 211" and "cacheOk cache" and "valid_date 1890 m d"
    and "rowOk 1890 (tbl ! 0)" and "leapOk (tbl ! 210)"
    and "toordinal \<lparr>dyear = 1890, dmonth = m, dday = d\<rparr> < epochOrd 1890 (tbl ! 0)"
  shows "1889 - minYear = - 1 \<and>
         lunarInfoAt tbl 1889 = Inr (tbl ! 210) \<and> lunarInfoAt tbl 2100 = Inr (tbl ! 210) \<and>
         (\<exists>res. fst (solarToLunar tbl cache 1890 m d) = Inr (Okay res) \<and>
            r_lunarYear res = 1889 \<and>
            r_lunarLeapMonth res = leapMonth (tbl ! 210) \<and>
            \<lparr>lyear = r_lunarYear res, lmonth = r_lunarMonth res - 1, lday = r_lunarDay res\<rparr>
              = lunarDateIn (decodeYear (tbl ! 210)) 1889
                  (toordinal \<lparr>dyear = 1890, dmonth = m, dday = d\<rparr> - epochOrd 1890 (tbl ! 0)))"
proof -
  let ?b = "toordinal \<lparr>dyear = 1890, dmonth = m, dday = d\<rparr> - epochOrd 1890 (tbl ! 0)"
  have r0: "rowAt tbl 1890 = tbl ! 0" and r9: "rowAt tbl 1889 = tbl ! 210"
    by (simp_all add: rowAt_def minYear_def)
  have lo: "lunarOf tbl 1890 (m - 1) d = lunarDateIn (decodeYear (tbl ! 210)) 1889 ?b"
    using assms(6) by (simp add: lunarOf_def Let_def r0 r9)
  have ly: "lyear (lunarOf tbl 1890 (m - 1) d) = 1889"
    using assms(6) by (simp add: lunarOf_year r0)
  have "\<exists>res. solarToLunarBody tbl (termKeys 1890) \<lparr>year_of = 1890, month_of = m - 1, day_of = d\<rparr>
               = Inr res \<and>
           r_lunarYear res = lyear (lunarOf tbl 1890 (m - 1) d) \<and>
           r_lunarMonth res = lmonth (lunarOf tbl 1890 (m - 1) d) + 1 \<and>
           r_lunarDay res = lday (lunarOf tbl 1890 (m - 1) d) \<and>
           r_lunarLeapMonth res = leapMonth (rowAt tbl (lyear (lunarOf tbl 1890 (m - 1) d))) \<and>
           r_zodiac res
             = zodiacNames ! nat ((cutoverYear 1890 (m - 1) d (getTermSpec 1890 2) - 1890 + 25) mod 12) \<and>
           r_GanZhiYear res = cyc (cutoverYear 1890 (m - 1) d (getTermSpec 1890 2) - 1890 + 25)"
    using assms by (intro solarToLunarBody_run) (simp_all add: r0 r9 ly)
  then obtain res where
    b: "solarToLunarBody tbl (termKeys 1890) \<lparr>year_of = 1890, month_of = m - 1, day_of = d\<rparr>
          = Inr res" and
    f: "r_lunarYear res = 1889" "r_lunarMonth res = lmonth (lunarOf tbl 1890 (m - 1) d) + 1"
       "r_lunarDay res = lday (lunarOf tbl 1890 (m - 1) d)"
       "r_lunarLeapMonth res = leapMonth (tbl ! 210)"
    by (auto simp add: ly r9)
  have s: "fst (solarToLunar tbl cache 1890 m d) = Inr (Okay res)"
    using solarToLunar_fst [OF assms(2), of 1890 tbl m d] by (simp add: b)
  have g: "\<lparr>lyear = r_lunarYear res, lmonth = r_lunarMonth res - 1, lday = r_lunarDay res\<rparr>
             = lunarOf tbl 1890 (m - 1) d"
    using f ly by simp
  have "lunarInfoAt tbl 1889 = Inr (tbl ! 210)" "lunarInfoAt tbl 2100 = Inr (tbl ! 210)"
    using assms(1) by (simp_all add: lunarInfoAt_def py_nth_def minYear_def)
  with s f g lo show ?thesis by (simp add: minYear_def)
qed

theorem wraparound_at_minYear_witness:
  "length sampleInfo = 211 \<and> cacheOk Map.empty \<and> valid_date 1890 1 1 \<and>
   rowOk 1890 (sampleInfo ! 0) \<and> leapOk (sampleInfo ! 210) \<and>
   toordinal \<lparr>dyear = 1890, dmonth = 1, dday = 1\<rparr> < epochOrd 1890 (sampleInfo ! 0) \<and>
   (\<exists>res. fst (solarToLunar sampleInfo Map.empty 1890 1 1) = Inr (Okay res) \<and>
      r_lunarYear res = 1889 \<and> r_lunarLeapMonth res = leapMonth (sampleInfo ! 210))"
proof -
  have h: "length sampleInfo = 211" "cacheOk Map.empty" "valid_date 1890 1 1"
    "rowOk 1890 (sampleInfo ! 0)" "leapOk (sampleInfo ! 210)"
    "toordinal \<lparr>dyear = 1890, dmonth = 1, dday = 1\<rparr> < epochOrd 1890 (sampleInfo ! 0)"
    by (simp_all add: length_sampleInfo cacheOk_empty sampleInfo_first sampleInfo_last row_def
        rowOk_def leapOk_def epochOrd_def date_eval2)
  from wraparound_at_minYear [OF h] h show ?thesis by blast
qed

section \<open>The sexagenary year changes at the start of spring\<close>

lemma solarToLunar_success_range:
  assumes "fst (solarToLunar tbl cache y m d) = Inr (Okay res)"
  shows "1890 \<le> y" and "y \<le> 2100"
  using assms
  by (auto simp add: solarToLunar_def formatDate_def minYear_def maxYear_def
      split: if_splits option.splits sum.splits)

lemma solarToLunarBody_cutover:
  assumes "1890 \<le> y" and "y \<le> 2100"
    and "solarToLunarBody tbl (termKeys y) \<lparr>year_of = y, month_of = m - 1, day_of = d\<rparr> = Inr res"
  shows "r_zodiac res
           = zodiacNames ! nat ((cutoverYear y (m - 1) d (getTermSpec y 2) - 1890 + 25) mod 12)"
    and "r_GanZhiYear res = cyc (cutoverYear y (m - 1) d (getTermSpec y 2) - 1890 + 25)"
  using assms(3)
  unfolding solarToLunarBody_def Let_def term2_of_supported [OF assms(1,2)]
  by (auto simp add: bindE_def getYearZodiac_run getLunarYearName_def cyclical_run
      split: sum.splits)

lemma solarToLunar_run:
  assumes "length tbl = 211" and "cacheOk cache" and "1890 \<le> y" and "y \<le> 2100"
    and "valid_date y m d" and "rowOk y (rowAt tbl y)"
    and "leapOk (rowAt tbl (lyear (lunarOf tbl y (m - 1) d)))"
  shows "\<exists>res. fst (solarToLunar tbl cache y m d) = Inr (Okay res) \<and>
           r_lunarYear res = lyear (lunarOf tbl y (m - 1) d) \<and>
           r_lunarMonth res = lmonth (lunarOf tbl y (m - 1) d) + 1 \<and>
           r_lunarDay res = lday (lunarOf tbl y (m - 1) d) \<and>
           r_lunarLeapMonth res = leapMonth (rowAt tbl (lyear (lunarOf tbl y (m - 1) d)))"
proof -
  from solarToLunarBody_run [OF assms(1,3,4,5,6,7)] obtain res where
    "solarToLunarBody tbl (termKeys y) \<lparr>year_of = y, month_of = m - 1, day_of = d\<rparr> = Inr res"
    "r_lunarYear res = lyear (lunarOf tbl y (m - 1) d)"
    "r_lunarMonth res = lmonth (lunarOf tbl y (m - 1) d) + 1"
    "r_lunarDay res = lday (lunarOf tbl y (m - 1) d)"
    "r_lunarLeapMonth res = leapMonth (rowAt tbl (lyear (lunarOf tbl y (m - 1) d)))"
    by blast
  then show ?thesis
    using solarToLunar_fst [OF assms(2,3,4), of tbl m d] by (intro exI [of _ res]) simp
qed

lemma sampleInfo_1890: "rowAt sampleInfo 1890 = row 2 1 21 22184"
  by (simp add: rowAt_def minYear_def sampleInfo_def)

lemma sampleInfo_2023: "rowAt sampleInfo 2023 = row 2 1 22 19880"
  by (simp add: rowAt_def minYear_def sampleInfo_def)

text \<open>
  Claim C7. Whenever \<open>solarToLunar\<close> returns a result, with \<open>s\<close> the day
  \<open>__getTerm(year, 2)\<close> of the start of spring and \<open>G\<close> equal to \<open>year + 1\<close> for a date in
  March or later, or in February on or after day \<open>s\<close>, and to \<open>year\<close> otherwise: the zodiac
  of the result is entry \<open>(G - 1890 + 25) mod 12\<close> of the animal table, which is what
  \<open>__getYearZodiac(G)\<close> returns, and the stem-branch year of the result is
  \<open>__cyclical(G - 1890 + 25)\<close>.
\<close>

theorem cutover_at_spring:
  assumes "cacheOk cache" and "fst (solarToLunar tbl cache y m d) = Inr (Okay res)"
  shows "\<exists>s G. getTerm y 2 = Inr s \<and>
           G = (if 3 \<le> m \<or> (m = 2 \<and> s \<le> d) then y + 1 else y) \<and>
           r_zodiac res = zodiacNames ! nat ((G - 1890 + 25) mod 12) \<and>
           getYearZodiac G = Inr (r_zodiac res) \<and>
           cyclical (G - 1890 + 25) = Inr (r_GanZhiYear res)"
proof -
  note y = solarToLunar_success_range [OF assms(2)]
  let ?s = "getTermSpec y 2"
  let ?G = "if 3 \<le> m \<or> (m = 2 \<and> ?s \<le> d) then y + 1 else y"
  have g: "cutoverYear y (m - 1) d ?s = ?G"
    by (auto simp add: cutoverYear_def)
  have "bindE (solarToLunarBody tbl (termKeys y) \<lparr>year_of = y, month_of = m - 1, day_of = d\<rparr>)
          (\<lambda>r. Inr (Okay r)) = Inr (Okay res)"
    using solarToLunar_fst [OF assms(1) y, of tbl m d] assms(2) by simp
  then have b: "solarToLunarBody tbl (termKeys y) \<lparr>year_of = y, month_of = m - 1, day_of = d\<rparr>
                  = Inr res"
    by (auto simp add: bindE_def split: sum.splits)
  note c = solarToLunarBody_cutover [OF y b, unfolded g]
  have "getTerm y 2 = Inr ?s"
    using y by (intro getTerm_supported) simp_all
  then show ?thesis
    using c by (intro exI [of _ ?s] exI [of _ ?G]) (simp add: getYearZodiac_run cyclical_run)
qed


theorem cutover_at_spring_witness:
  "cacheOk Map.empty \<and>
   (\<exists>res. fst (solarToLunar sampleInfo Map.empty 2023 2 4) = Inr (Okay res) \<and>
      getTerm 2023 2 = Inr 4 \<and>
      r_zodiac res = zodiacNames ! nat ((2024 - 1890 + 25) mod 12) \<and>
      cyclical (2024 - 1890 + 25) = Inr (r_GanZhiYear res))"
proof -
  have ly: "lyear (lunarOf sampleInfo 2023 1 4) = 2023"
    by (simp add: lunarOf_year sampleInfo_2023 row_def epochOrd_def date_eval2)
  have "\<exists>res. fst (solarToLunar sampleInfo Map.empty 2023 2 4) = Inr (Okay res)"
    using solarToLunar_run [of sampleInfo Map.empty 2023 2 4]
    by (auto simp add: ly length_sampleInfo cacheOk_empty sampleInfo_2023 row_def rowOk_def
        leapOk_def date_eval2)
  then obtain res where s: "fst (solarToLunar sampleInfo Map.empty 2023 2 4) = Inr (Okay res)"
    by blast
  have t: "getTermSpec 2023 2 = 4"
    by (simp add: term_eval date_eval)
  have g: "getTerm 2023 2 = Inr 4"
    using getTerm_supported [of 2023 2] t by simp
  from cutover_at_spring [OF cacheOk_empty s] g s show ?thesis
    by (intro conjI cacheOk_empty exI [of _ res]) auto
qed

section \<open>Days that do not exist\<close>

lemma solarToLunar_invalid_day:
  assumes len: "length tbl = 211" and c: "cacheOk cache" and y: "1890 \<le> y" "y \<le> 2100"
    and m: "1 \<le> m" "m \<le> 12" and r: "rowOk y (rowAt tbl y)" and d: "\<not> valid_date y m d"
  shows "fst (solarToLunar tbl cache y m d) = Inl (if c_int d then ValueError else OverflowError)"
proof -
  let ?e = "if c_int d then ValueError else OverflowError"
  have ci: "c_int y" "c_int m"
    using y m by (simp_all add: c_int_def)
  have t2: "term2_of (termKeys y) = Inr (getTermSpec y 2)"
    using y by (rule term2_of_supported)
  have ft: "getTerm y (m * 2 - 2) = Inr (getTermSpec y (m * 2 - 2))"
    using y m by (intro getTerm_supported) auto
  have a: "lunarInfoAt tbl y = Inr (rowAt tbl y)"
    using len y by (intro lunarInfoAt_rowAt) auto
  have "mk_date y m d = Inl ?e"
    using d ci by (rule mk_date_invalid)
  moreover have "valid_date y (zenMonth (rowAt tbl y)) (zenDay (rowAt tbl y))"
    using r by (simp add: rowOk_def)
  ultimately have "getDaysBetweenSolar y (zenMonth (rowAt tbl y) - 1) (zenDay (rowAt tbl y))
                     y (m - 1) d = Inl ?e"
    by (simp add: getDaysBetweenSolar_def mk_date_valid)
  then have "getLunarByBetween tbl y (m - 1) d = Inl ?e"
    by (simp add: getLunarByBetween_def a)
  then have "solarToLunarBody tbl (termKeys y) \<lparr>year_of = y, month_of = m - 1, day_of = d\<rparr>
               = Inl ?e"
    by (simp add: solarToLunarBody_def Let_def t2 ft)
  then show ?thesis
    using solarToLunar_fst [OF c y, of tbl m d] by simp
qed

lemma lunarToSolar_run:
  assumes len: "length tbl = 211" and y: "1891 \<le> y" "y \<le> 2100" and r: "rowOk y (rowAt tbl y)"
    and k: "k = epochOrd y (rowAt tbl y)
                + (sum_list (take (nat (m - 1)) (monthDays (decodeYear (rowAt tbl y)))) + d - 1)"
  shows "lunarToSolar tbl y m d =
           (if 1 \<le> k \<and> k \<le> maxordinal
            then Inr (Okay \<lparr>year_of = dyear (fromordinal k), month_of = dmonth (fromordinal k),
                            day_of = dday (fromordinal k)\<rparr>)
            else Inl OverflowError)"
proof -
  let ?row = "rowAt tbl y"
  let ?between = "sum_list (take (nat (m - 1)) (monthDays (decodeYear ?row))) + d - 1"
  have a: "lunarInfoAt tbl y = Inr ?row"
    using len y by (intro lunarInfoAt_rowAt) auto
  have z: "getDaysBetweenZheng tbl y (m - 1) d = Inr ?between"
    by (simp add: getDaysBetweenZheng_def getLunarYearDays_def a zhengLoop_sum)
  have v: "valid_date y (zenMonth ?row) (zenDay ?row)"
    using r by (simp add: rowOk_def)
  have e1: "1 \<le> epochOrd y ?row"
    using toordinal_bounds(1) [OF v] days_before_year_mono [of 1 y] y
    by (simp add: epochOrd_def days_before_year_def)
  have "epochOrd y ?row \<le> 366 * y"
    using toordinal_bounds(2) [OF v] days_before_year_le [of "y + 1"] y
    by (simp add: epochOrd_def)
  then have e2: "epochOrd y ?row \<le> 768600" using y by simp
  have f: "lunarToSolar tbl y m d =
      bindE (timedelta_days ?between) (\<lambda>n.
      bindE (date_add_days \<lparr>dyear = y, dmonth = zenMonth ?row, dday = zenDay ?row\<rparr> n) (\<lambda>offDate.
      Inr (Okay \<lparr>year_of = dyear offDate, month_of = dmonth offDate, day_of = dday offDate\<rparr>)))"
    using y v by (simp add: lunarToSolar_def formatDate_def minYear_def maxYear_def z a mk_date_valid)
  show ?thesis
  proof (cases "\<bar>?between\<bar> \<le> 999999999")
    case True
    then show ?thesis
      unfolding f k by (simp add: timedelta_days_def date_add_days_def Let_def epochOrd_def)
  next
    case False
    then have "\<not> (1 \<le> k \<and> k \<le> maxordinal)"
      using e1 e2 unfolding k maxordinal_def by linarith
    with False show ?thesis
      unfolding f by (simp add: timedelta_days_def)
  qed
qed


lemma rev_upt_16: "rev [0..<16] = [15, 14, 13, 12, 11, 10, 9, 8, 7, 6, 5, 4, 3, 2, 1, 0]"
  by (simp add: upt_rec)

lemma decode_2023:
  "monthDays (decodeYear (row 2 1 22 19880)) = [29, 30, 29, 29, 30, 30, 29, 30, 30, 29, 30, 29, 30]"
  by (simp add: decodeYear_monthDays monthDataArr_def rev_upt_16 monthBit_eq row_def bit_iff_odd)

text \<open>
  Claim C6, as the code has it. Neither entry point checks the day against the length of
  its month, and they differ in what follows. Take a year whose row holds a real
  new-year date. \<open>lunarToSolar\<close>, for a year it accepts (1891 to 2100), takes any month
  and any day: with \<open>k\<close> the day number of the new-year date plus the sum of the months
  before plus \<open>day - 1\<close>, the result is the date of day number \<open>k\<close> when that lies in the
  years 1 to 9999, and \<open>OverflowError\<close> is raised otherwise. \<open>solarToLunar\<close>, for a year it
  accepts (1890 to 2100) and a month from 1 to 12, returns no result for a day that
  does not exist in that Gregorian month: \<open>datetime.date\<close> raises \<open>ValueError\<close>, or
  \<open>OverflowError\<close> when the day does not fit a C integer.
\<close>

theorem no_day_of_month_check:
  assumes "length tbl = 211" and "cacheOk cache" and "1890 \<le> y" and "y \<le> 2100"
    and "rowOk y (rowAt tbl y)"
  shows "(1891 \<le> y \<longrightarrow>
            (\<forall>m d k. k = epochOrd y (rowAt tbl y)
                        + (sum_list (take (nat (m - 1)) (monthDays (decodeYear (rowAt tbl y))))
                           + d - 1) \<longrightarrow>
               lunarToSolar tbl y m d =
                 (if 1 \<le> k \<and> k \<le> maxordinal
                  then Inr (Okay \<lparr>year_of = dyear (fromordinal k),
                                  month_of = dmonth (fromordinal k),
                                  day_of = dday (fromordinal k)\<rparr>)
                  else Inl OverflowError))) \<and>
         (\<forall>m d. 1 \<le> m \<and> m \<le> 12 \<and> \<not> valid_date y m d \<longrightarrow>
            fst (solarToLunar tbl cache y m d)
              = Inl (if c_int d then ValueError else OverflowError))"
proof (intro conjI allI impI)
  fix m d k
  assume "1891 \<le> y"
    and "k = epochOrd y (rowAt tbl y)
               + (sum_list (take (nat (m - 1)) (monthDays (decodeYear (rowAt tbl y)))) + d - 1)"
  then show "lunarToSolar tbl y m d =
                 (if 1 \<le> k \<and> k \<le> maxordinal
                  then Inr (Okay \<lparr>year_of = dyear (fromordinal k),
                                  month_of = dmonth (fromordinal k),
                                  day_of = dday (fromordinal k)\<rparr>)
                  else Inl OverflowError)"
    using assms(1,4,5) by (intro lunarToSolar_run)
next
  fix m d
  assume "1 \<le> m \<and> m \<le> 12 \<and> \<not> valid_date y m d"
  then show "fst (solarToLunar tbl cache y m d)
               = Inl (if c_int d then ValueError else OverflowError)"
    using assms by (intro solarToLunar_invalid_day) auto
qed

theorem no_day_of_month_check_witness:
  "length sampleInfo = 211 \<and> cacheOk Map.empty \<and> (1890::int) \<le> 2023 \<and> (2023::int) \<le> 2100 \<and>
   rowOk 2023 (rowAt sampleInfo 2023) \<and> rowOk 1890 (rowAt sampleInfo 1890) \<and>
   monthDays (decodeYear (rowAt sampleInfo 2023)) ! 2 = 29 \<and>
   lunarToSolar sampleInfo 2023 3 30 = Inr (Okay \<lparr>year_of = 2023, month_of = 4, day_of = 20\<rparr>) \<and>
   lunarToSolar sampleInfo 2023 3 3000000 = Inl OverflowError \<and>
   \<not> valid_date 2023 2 30 \<and> \<not> valid_date 1890 2 30 \<and>
   fst (solarToLunar sampleInfo Map.empty 2023 2 30) = Inl ValueError \<and>
   fst (solarToLunar sampleInfo Map.empty 2023 2 2147483648) = Inl OverflowError \<and>
   fst (solarToLunar sampleInfo Map.empty 1890 2 30) = Inl ValueError"
proof -
  have h: "length sampleInfo = 211" "cacheOk Map.empty" "(1890::int) \<le> 2023" "(2023::int) \<le> 2100"
    "rowOk 2023 (rowAt sampleInfo 2023)"
    by (simp_all add: length_sampleInfo cacheOk_empty sampleInfo_2023 row_def rowOk_def date_eval2)
  have h0: "length sampleInfo = 211" "cacheOk Map.empty" "(1890::int) \<le> 1890" "(1890::int) \<le> 2100"
    "rowOk 1890 (rowAt sampleInfo 1890)"
    by (simp_all add: length_sampleInfo cacheOk_empty sampleInfo_1890 row_def rowOk_def date_eval2)
  note t = no_day_of_month_check [OF h]
  note t0 = no_day_of_month_check [OF h0]
  have e: "epochOrd 2023 (row 2 1 22 19880) = 738542"
    by (simp add: epochOrd_def row_def date_eval2)
  have k: "epochOrd 2023 (rowAt sampleInfo 2023)
             + (sum_list (take (nat (3 - 1)) (monthDays (decodeYear (rowAt sampleInfo 2023)))) + 30 - 1)
           = 738630"
    unfolding sampleInfo_2023 decode_2023 e by simp
  have k': "epochOrd 2023 (rowAt sampleInfo 2023)
             + (sum_list (take (nat (3 - 1)) (monthDays (decodeYear (rowAt sampleInfo 2023))))
                + 3000000 - 1)
           = 3738600"
    unfolding sampleInfo_2023 decode_2023 e by simp
  have f: "fromordinal 738630 = \<lparr>dyear = 2023, dmonth = 4, dday = 20\<rparr>"
    by (simp add: date_eval)
  have a: "lunarToSolar sampleInfo 2023 3 30
             = Inr (Okay \<lparr>year_of = 2023, month_of = 4, day_of = 20\<rparr>)"
    using t [THEN conjunct1, rule_format, of 738630 3 30] k by (simp add: maxordinal_def f)
  have a': "lunarToSolar sampleInfo 2023 3 3000000 = Inl OverflowError"
    using t [THEN conjunct1, rule_format, of 3738600 3 3000000] k' by (simp add: maxordinal_def)
  have v: "\<not> valid_date 2023 2 30" "\<not> valid_date 2023 2 2147483648" "\<not> valid_date 1890 2 30"
    by (simp_all add: date_eval2)
  have b: "fst (solarToLunar sampleInfo Map.empty 2023 2 30) = Inl ValueError"
    using t [THEN conjunct2, rule_format, of 2 30] v by (simp add: c_int_def)
  have b': "fst (solarToLunar sampleInfo Map.empty 2023 2 2147483648) = Inl OverflowError"
    using t [THEN conjunct2, rule_format, of 2 2147483648] v by (simp add: c_int_def)
  have b0: "fst (solarToLunar sampleInfo Map.empty 1890 2 30) = Inl ValueError"
    using t0 [THEN conjunct2, rule_format, of 2 30] v by (simp add: c_int_def)
  have c: "monthDays (decodeYear (rowAt sampleInfo 2023)) ! 2 = 29"
    by (simp add: sampleInfo_2023 decode_2023)
  from h h0 a a' b b' b0 c v show ?thesis by simp
qed

theorem solar_february_30_raises:
  "fst (solarToLunar sampleInfo Map.empty 2023 2 30) = Inl ValueError"
  using solarToLunar_invalid_day [of sampleInfo Map.empty 2023 2 30]
  by (simp add: length_sampleInfo cacheOk_empty sampleInfo_2023 row_def rowOk_def date_eval2
      c_int_def)

section \<open>Round trips\<close>

lemma lunarDateIn_offset:
  assumes en: "en = (if between > 0 then between else yearDays (decodeYear r) + between)"
    and r: "0 \<le> en" "en < yearDays (decodeYear r)"
  shows "0 \<le> lmonth (lunarDateIn (decodeYear r) ly between)"
    and "sum_list (take (nat (lmonth (lunarDateIn (decodeYear r) ly between)))
             (monthDays (decodeYear r)))
           + lday (lunarDateIn (decodeYear r) ly between) - 1 = en"
    and "lyear (lunarDateIn (decodeYear r) ly between) = ly"
proof -
  let ?lyd = "decodeYear r"
  let ?mds = "monthDays ?lyd"
  obtain mo tmp where bl: "betweenLoop ?mds 0 0 en = (mo, tmp)"
    by (cases "betweenLoop ?mds 0 0 en")
  have ld: "lunarDateIn ?lyd ly between = \<lparr>lyear = ly, lmonth = mo, lday = en - tmp + 1\<rparr>"
    by (simp add: lunarDateIn_def en [symmetric] bl)
  have ne: "?mds \<noteq> []" using decodeYear_length [of r] by (auto split: if_splits)
  from betweenLoop_cases [OF bl] ne r
  obtain j where "j < length ?mds" "mo = int j" "tmp = sum_list (take j ?mds)"
    by (auto simp add: decodeYear_yearDays)
  then show "0 \<le> lmonth (lunarDateIn (decodeYear r) ly between)"
    and "sum_list (take (nat (lmonth (lunarDateIn (decodeYear r) ly between)))
             (monthDays (decodeYear r)))
           + lday (lunarDateIn (decodeYear r) ly between) - 1 = en"
    and "lyear (lunarDateIn (decodeYear r) ly between) = ly"
    by (simp_all add: ld)
qed

text \<open>
  What a round trip needs of the table around a solar year: the rows of the year and of
  the year before hold real dates and leap months from 0 to 12, the lunar year before
  ends where the lunar year begins, and the lunar year reaches beyond 31 December.
\<close>

definition yearCovered :: "yearData list \<Rightarrow> int \<Rightarrow> bool" where
  "yearCovered tbl y \<longleftrightarrow>
     rowOk y (rowAt tbl y) \<and> rowOk (y - 1) (rowAt tbl (y - 1)) \<and>
     leapOk (rowAt tbl y) \<and> leapOk (rowAt tbl (y - 1)) \<and>
     epochOrd y (rowAt tbl y)
       = epochOrd (y - 1) (rowAt tbl (y - 1)) + yearDays (decodeYear (rowAt tbl (y - 1))) \<and>
     days_before_year (y + 1) < epochOrd y (rowAt tbl y) + yearDays (decodeYear (rowAt tbl y))"

lemma round_trip:
  assumes len: "length tbl = 211" and c: "cacheOk cache" and y: "1891 \<le> y" "y \<le> 2100"
    and d: "valid_date y m d" and cov: "yearCovered tbl y"
    and nb: "1892 \<le> y \<or>
             epochOrd y (rowAt tbl y) \<le> toordinal \<lparr>dyear = y, dmonth = m, dday = d\<rparr>"
  shows "\<exists>res. fst (solarToLunar tbl cache y m d) = Inr (Okay res) \<and>
           lunarToSolar tbl (r_lunarYear res) (r_lunarMonth res) (r_lunarDay res)
             = Inr (Okay \<lparr>year_of = y, month_of = m, day_of = d\<rparr>)"
proof -
  let ?D = "toordinal \<lparr>dyear = y, dmonth = m, dday = d\<rparr>"
  let ?b = "?D - epochOrd y (rowAt tbl y)"
  define ld where "ld = lunarOf tbl y (m - 1) d"
  define ly where "ly = (if ?b \<ge> 0 then y else y - 1)"
  have lyr: "lyear ld = ly"
    by (simp add: ld_def ly_def lunarOf_year)
  have ly1: "1891 \<le> ly" "ly \<le> 2100"
    using y nb by (auto simp add: ly_def)
  have rk: "rowOk ly (rowAt tbl ly)" and lk: "leapOk (rowAt tbl ly)"
    using cov by (auto simp add: yearCovered_def ly_def)
  have rky: "rowOk y (rowAt tbl y)"
    using cov by (simp add: yearCovered_def)
  from solarToLunar_run [OF len c _ y(2) d rky, folded ld_def] lk lyr y
  obtain res where
    s: "fst (solarToLunar tbl cache y m d) = Inr (Okay res)" and
    f: "r_lunarYear res = ly" "r_lunarMonth res = lmonth ld + 1" "r_lunarDay res = lday ld"
    by auto
  have D: "days_before_year y < ?D" "?D \<le> days_before_year (y + 1)"
    using toordinal_bounds [OF d] by simp_all
  have k: "epochOrd ly (rowAt tbl ly)
             + (sum_list (take (nat (lmonth ld + 1 - 1)) (monthDays (decodeYear (rowAt tbl ly))))
                + lday ld - 1) = ?D"
  proof -
    consider "?b = 0" | "?b > 0" | "?b < 0" by linarith
    then show ?thesis
    proof cases
      case 1
      then have "ld = \<lparr>lyear = y, lmonth = 0, lday = 1\<rparr>" "ly = y"
        by (simp_all add: ld_def lunarOf_def ly_def)
      with 1 show ?thesis by simp
    next
      case 2
      then have e: "ld = lunarDateIn (decodeYear (rowAt tbl y)) y ?b" and l: "ly = y"
        by (simp_all add: ld_def lunarOf_def Let_def ly_def)
      have "?b < yearDays (decodeYear (rowAt tbl y))"
        using cov D by (simp add: yearCovered_def)
      with 2 have "0 \<le> lmonth ld \<and>
          sum_list (take (nat (lmonth ld)) (monthDays (decodeYear (rowAt tbl y)))) + lday ld - 1 = ?b"
        unfolding e by (intro conjI lunarDateIn_offset) simp_all
      then show ?thesis by (simp add: l)
    next
      case 3
      then have e: "ld = lunarDateIn (decodeYear (rowAt tbl (y - 1))) (y - 1) ?b"
        and l: "ly = y - 1"
        by (simp_all add: ld_def lunarOf_def Let_def ly_def)
      let ?p = "rowAt tbl (y - 1)"
      have cons: "epochOrd y (rowAt tbl y) = epochOrd (y - 1) ?p + yearDays (decodeYear ?p)"
        using cov by (simp add: yearCovered_def)
      have "valid_date (y - 1) (zenMonth ?p) (zenDay ?p)"
        using cov by (simp add: yearCovered_def rowOk_def)
      from toordinal_bounds(2) [OF this] have "epochOrd (y - 1) ?p \<le> days_before_year y"
        by (simp add: epochOrd_def)
      then have en0: "0 \<le> yearDays (decodeYear ?p) + ?b" using D cons by simp
      have "0 \<le> lmonth ld \<and>
          sum_list (take (nat (lmonth ld)) (monthDays (decodeYear ?p))) + lday ld - 1
            = yearDays (decodeYear ?p) + ?b"
        unfolding e using 3 en0 by (intro conjI lunarDateIn_offset) (simp_all, linarith?)
      then show ?thesis using cons by (simp add: l)
    qed
  qed
  have rng: "1 \<le> ?D" "?D \<le> maxordinal"
  proof -
    have "0 \<le> days_before_year y"
      using days_before_year_mono [of 1 y] y by (simp add: days_before_year_def)
    then show "1 \<le> ?D" using D by simp
    have "?D \<le> 366 * y"
      using D days_before_year_le [of "y + 1"] y by simp
    then show "?D \<le> maxordinal" using y by (simp add: maxordinal_def)
  qed
  have "lunarToSolar tbl ly (lmonth ld + 1) (lday ld)
          = Inr (Okay \<lparr>year_of = dyear (fromordinal ?D), month_of = dmonth (fromordinal ?D),
                       day_of = dday (fromordinal ?D)\<rparr>)"
    using lunarToSolar_run [OF len ly1 rk k [symmetric]] rng by simp
  then show ?thesis
    using s f by (intro exI [of _ res]) (simp add: fromordinal_toordinal [OF d])
qed


lemma round_trip_lost_before_1891_new_year:
  assumes len: "length tbl = 211" and c: "cacheOk cache" and d: "valid_date 1891 m d"
    and r: "rowOk 1891 (rowAt tbl 1891)" and l: "leapOk (rowAt tbl 1890)"
    and b: "toordinal \<lparr>dyear = 1891, dmonth = m, dday = d\<rparr> < epochOrd 1891 (rowAt tbl 1891)"
  shows "\<exists>res. fst (solarToLunar tbl cache 1891 m d) = Inr (Okay res) \<and>
           r_lunarYear res = 1890 \<and>
           lunarToSolar tbl (r_lunarYear res) (r_lunarMonth res) (r_lunarDay res)
             = Inr (Err 100 ''Year out of range'')"
proof -
  have ly: "lyear (lunarOf tbl 1891 (m - 1) d) = 1890"
    using b by (simp add: lunarOf_year)
  from solarToLunar_run [OF len c _ _ d r] l ly
  obtain res where "fst (solarToLunar tbl cache 1891 m d) = Inr (Okay res)"
    "r_lunarYear res = 1890"
    by auto
  then show ?thesis
    by (intro exI [of _ res]) (simp add: lunarToSolar_Err_iff)
qed

lemma sampleInfo_1891: "rowAt sampleInfo 1891 = row 0 2 9 21936"
  by (simp add: rowAt_def minYear_def sampleInfo_def)

text \<open>
  Claim C2, at a date it loses. 1 January 1891 lies before the lunar new year of 1891
  (9 February in the row \<open>[0, 2, 9, 21936]\<close>), so \<open>solarToLunar\<close> returns the lunar year
  1890, and \<open>lunarToSolar\<close> answers that lunar date with the error reply: it refuses the
  year 1890. Lemma \<open>round_trip\<close> gives the round trip for every other date of 1891 to
  2100, on a table whose lunar years follow one another.
\<close>

theorem round_trip_at_1891_01_01:
  "\<exists>res. fst (solarToLunar sampleInfo Map.empty 1891 1 1) = Inr (Okay res) \<and>
     r_lunarYear res = 1890 \<and>
     lunarToSolar sampleInfo (r_lunarYear res) (r_lunarMonth res) (r_lunarDay res)
       = Inr (Err 100 ''Year out of range'')"
  by (rule round_trip_lost_before_1891_new_year)
     (simp_all add: length_sampleInfo cacheOk_empty sampleInfo_1890 sampleInfo_1891 row_def
        rowOk_def leapOk_def epochOrd_def date_eval2)

lemma round_trip_2023_01_21:
  "\<exists>res. fst (solarToLunar sampleInfo Map.empty 2023 1 21) = Inr (Okay res) \<and>
     r_lunarYear res = 2022 \<and>
     lunarToSolar sampleInfo (r_lunarYear res) (r_lunarMonth res) (r_lunarDay res)
       = Inr (Okay \<lparr>year_of = 2023, month_of = 1, day_of = 21\<rparr>)"
proof -
  have r2: "rowAt sampleInfo 2022 = row 0 2 1 44368"
    by (simp add: rowAt_def minYear_def sampleInfo_def)
  have dec: "yearDays (decodeYear (row 0 2 1 44368)) = 355"
    "yearDays (decodeYear (row 2 1 22 19880)) = 384"
    by (simp_all add: decodeYear_yearDays decodeYear_monthDays monthDataArr_def rev_upt_16
        monthBit_eq row_def bit_iff_odd)
  have e: "epochOrd 2023 (row 2 1 22 19880) = 738542" "epochOrd 2022 (row 0 2 1 44368) = 738187"
    by (simp_all add: epochOrd_def row_def date_eval2)
  have cov: "yearCovered sampleInfo 2023"
    unfolding yearCovered_def sampleInfo_2023 using r2
    by (simp add: dec e) (simp add: row_def rowOk_def leapOk_def date_eval2)
  have "\<exists>res. fst (solarToLunar sampleInfo Map.empty 2023 1 21) = Inr (Okay res) \<and>
           lunarToSolar sampleInfo (r_lunarYear res) (r_lunarMonth res) (r_lunarDay res)
             = Inr (Okay \<lparr>year_of = 2023, month_of = 1, day_of = 21\<rparr>)"
    using cov by (intro round_trip) (simp_all add: length_sampleInfo cacheOk_empty date_eval2)
  then obtain res where
    s: "fst (solarToLunar sampleInfo Map.empty 2023 1 21) = Inr (Okay res)" and
    t: "lunarToSolar sampleInfo (r_lunarYear res) (r_lunarMonth res) (r_lunarDay res)
             = Inr (Okay \<lparr>year_of = 2023, month_of = 1, day_of = 21\<rparr>)"
    by blast
  have ly: "lyear (lunarOf sampleInfo 2023 0 21) = 2022"
    by (simp add: lunarOf_year sampleInfo_2023 e) (simp add: date_eval2)
  have "r_lunarYear res = 2022"
    using solarToLunar_run [of sampleInfo Map.empty 2023 1 21] s
    by (simp add: ly length_sampleInfo cacheOk_empty sampleInfo_2023 r2 e)
       (auto simp add: row_def rowOk_def leapOk_def date_eval2)
  with s t show ?thesis by blast
qed

end
